theory Spec2Isabelle
  imports Complex_Main "HOL-Library.Word"
begin

section \<open>The polynomial basis engine of SPLINTER (src/src/polynomial.cpp)\<close>

text \<open>
  A shallow embedding of \<^verbatim>\<open>SPLINTER::Polynomial\<close>. The conventions:
  \<^item> \<^verbatim>\<open>unsigned int\<close> is a 32-bit word: \<open>+\<close> and \<open>*\<close> wrap around, as in C++;
  \<^item> \<^verbatim>\<open>size_t\<close> and Eigen's \<^verbatim>\<open>Index\<close> are 64 bits wide and never overflow on the
    data handled here; they are natural numbers;
  \<^item> \<^verbatim>\<open>double\<close> is idealised as \<open>real\<close> (no rounding, no infinities, no NaN);
    a \<^verbatim>\<open>DenseVector\<close> is a list of reals, and a sparse view of a vector is the
    vector itself. Where a power or a product leaves the range of \<^verbatim>\<open>double\<close> the
    code computes with infinities and NaN: a second embedding of the evaluation
    functions, further down, has these values, and the property that depends on them
    (the zero column of the Jacobian) is stated there;
  \<^item> every \<^verbatim>\<open>throw\<close>, every failing \<^verbatim>\<open>std::vector::at\<close> and every failing
    bounds assertion of Eigen is a value of type \<open>error\<close>.
\<close>

subsection \<open>Errors\<close>

text \<open>
  The source throws one exception class with different messages; each message is a
  constructor. \<open>StdOutOfRange\<close> is what \<^verbatim>\<open>std::vector::at\<close> throws.
  \<open>EigenAssertion\<close> is the failure of Eigen's index check in \<^verbatim>\<open>operator()\<close>
  (a build without assertions has undefined behaviour there). \<open>NonTermination\<close>
  marks a loop whose exit test can never become false.
\<close>

datatype error =
    InvalidVariable
  | InvariantViolation
  | StdOutOfRange
  | EigenAssertion
  | NonTermination

type_synonym uint = "32 word"
type_synonym DenseVector = "real list"

subsection \<open>The model state\<close>

text \<open>
  Modelled from the spec: the base class \<^verbatim>\<open>LinearFunction\<close> is not among the
  sources. Section 6 of the specification gives its interface: it is constructed
  from \<open>(numVariables: unsigned, coefficients)\<close>, owns both, and
  \<^verbatim>\<open>getNumCoefficients()\<close> returns the length of the coefficient vector as an
  unsigned integer.
\<close>

record LinearFunction =
  numVariables :: uint
  coefficients :: DenseVector

record Polynomial = LinearFunction +
  degrees :: "uint list"

text \<open>
  Modelled from the spec: \<^verbatim>\<open>getNumCoefficients() -> unsigned\<close> of the absent base
  class (section 6), the size of the coefficient vector converted to \<^verbatim>\<open>unsigned int\<close>.
\<close>

definition getNumCoefficients :: "'a LinearFunction_scheme \<Rightarrow> uint" where
  "getNumCoefficients f = of_nat (length (coefficients f))"

subsection \<open>Counting the basis functions\<close>

text \<open>
  \<^verbatim>\<open>
  unsigned int numMonomials = 1;
  for (auto deg : degrees)
      numMonomials *= (deg+1);
  return numMonomials;
  \<close>
\<close>

fun numMonomials_loop :: "uint \<Rightarrow> uint list \<Rightarrow> uint" where
  "numMonomials_loop numMonomials [] = numMonomials"
| "numMonomials_loop numMonomials (deg # rest) =
     numMonomials_loop (numMonomials * (deg + 1)) rest"

definition computeNumBasisFunctions :: "uint list \<Rightarrow> uint" where
  "computeNumBasisFunctions degs = numMonomials_loop 1 degs"

subsection \<open>Constructors\<close>

text \<open>
  \<^verbatim>\<open>
  Polynomial(std::vector<unsigned int> degrees)
      : LinearFunction(degrees.size(), DenseVector::Zero(computeNumBasisFunctions(degrees))),
        degrees(degrees)
  Polynomial(std::vector<unsigned int> degrees, DenseVector coefficients)
      : LinearFunction(degrees.size(), coefficients), degrees(degrees)
  Polynomial(unsigned int numVariables, unsigned int degree)
      : Polynomial(std::vector<unsigned int>(numVariables, degree))
  \<close>
  \<^verbatim>\<open>degrees.size()\<close> is a \<^verbatim>\<open>size_t\<close> converted to \<^verbatim>\<open>unsigned int\<close>:
  \<open>of_nat\<close> truncates it modulo \<open>2 ^ 32\<close>.
\<close>

definition Polynomial_degrees :: "uint list \<Rightarrow> Polynomial" where
  "Polynomial_degrees degs =
     \<lparr> numVariables = of_nat (length degs),
       coefficients = replicate (unat (computeNumBasisFunctions degs)) 0,
       degrees = degs \<rparr>"

definition Polynomial_degrees_coefficients :: "uint list \<Rightarrow> DenseVector \<Rightarrow> Polynomial" where
  "Polynomial_degrees_coefficients degs coeffs =
     \<lparr> numVariables = of_nat (length degs),
       coefficients = coeffs,
       degrees = degs \<rparr>"

definition Polynomial_uniform :: "uint \<Rightarrow> uint \<Rightarrow> Polynomial" where
  "Polynomial_uniform n degree = Polynomial_degrees (replicate (unat n) degree)"

subsection \<open>Element access\<close>

text \<open>
  \<^verbatim>\<open>std::vector::at\<close> throws \<^verbatim>\<open>std::out_of_range\<close> outside the vector. Eigen's
  \<^verbatim>\<open>v(i)\<close> asserts \<open>0 \<le> i < size\<close>, for a read and for a write alike.
\<close>

definition vector_at :: "'a list \<Rightarrow> nat \<Rightarrow> error + 'a" where
  "vector_at xs i = (if i < length xs then Inr (xs ! i) else Inl StdOutOfRange)"

definition coeff :: "DenseVector \<Rightarrow> nat \<Rightarrow> error + real" where
  "coeff v i = (if i < length v then Inr (v ! i) else Inl EigenAssertion)"

definition set_coeff :: "DenseVector \<Rightarrow> nat \<Rightarrow> real \<Rightarrow> error + DenseVector" where
  "set_coeff v i a = (if i < length v then Inr (v[i := a]) else Inl EigenAssertion)"

definition Zero :: "nat \<Rightarrow> DenseVector" where
  "Zero n = replicate n 0"

subsection \<open>The Kronecker product\<close>

text \<open>
  Modelled from the spec: \<^verbatim>\<open>kroneckerProductVectors\<close> is declared in
  \<^verbatim>\<open>mykroneckerproduct.h\<close>, which is not among the sources. The specification
  (sections 4.2 and 9) describes it as an iterative combine step: a running vector is
  Kronecker-multiplied by the next dimension's power vector, in dimension order,
  dimension 0 outermost and the last dimension varying fastest. The running vector
  starts as the one-entry vector \<open>[1]\<close>, the unit of the product.
\<close>

definition kroneckerProduct :: "DenseVector \<Rightarrow> DenseVector \<Rightarrow> DenseVector" where
  "kroneckerProduct a b = concat (map (\<lambda>ai. map (\<lambda>bj. ai * bj) b) a)"

text \<open>
  Modelled from the spec: the accumulation over the list of vectors (section 9,
  "accumulate a running vector by Kronecker-multiplying in the next dimension's power
  vector").
\<close>

definition kroneckerProductVectors :: "DenseVector list \<Rightarrow> DenseVector" where
  "kroneckerProductVectors vectors = foldl kroneckerProduct [1] vectors"

subsection \<open>Evaluating the monomials\<close>

text \<open>
  The inner loop of \<^verbatim>\<open>evalBasisFunctions\<close>:
  \<^verbatim>\<open>
  for (unsigned int j = 0; j <= deg; ++j)
      powi(j) = std::pow(x(i), j);
  \<close>
  When \<open>j\<close> is the largest unsigned value, \<^verbatim>\<open>++j\<close> wraps to 0 and the test
  \<^verbatim>\<open>j <= deg\<close> holds again: the loop cannot end. \<^verbatim>\<open>std::pow(x(i), j)\<close> is the real
  power \<open>x\<^sub>i ^ j\<close> here, which never overflows; \<open>powi_loop_ieee\<close> below is the
  same loop with the overflow of \<^verbatim>\<open>std::pow\<close>.
\<close>

function powi_loop :: "DenseVector \<Rightarrow> uint \<Rightarrow> uint \<Rightarrow> uint \<Rightarrow> DenseVector \<Rightarrow> error + DenseVector" where
  "powi_loop x i deg j pw =
     (if j \<le> deg then
        (case coeff x (unat i) of
           Inl e \<Rightarrow> Inl e
         | Inr xi \<Rightarrow>
             (case set_coeff pw (unat j) (xi ^ unat j) of
                Inl e \<Rightarrow> Inl e
              | Inr pw' \<Rightarrow>
                  if j = - 1 then Inl NonTermination
                  else powi_loop x i deg (j + 1) pw'))
      else Inr pw)"
  by pat_completeness auto
termination
proof (relation "measure (\<lambda>(x, i, deg, j, pw). 2 ^ 32 - unat j)")
  fix x pw pw' :: DenseVector and i deg j :: uint
  assume "j \<noteq> - 1"
  then have "unat (j + 1) = Suc (unat j)"
    using unatSuc [of j] max_word_wrap [of j] by (auto simp: add.commute)
  moreover have "unat j < 2 ^ 32"
    using unsigned_less [of j, where 'a = nat] by simp
  ultimately show "((x, i, deg, j + 1, pw'), (x, i, deg, j, pw))
      \<in> measure (\<lambda>(x, i, deg, j, pw). 2 ^ 32 - unat j)"
    by simp
qed simp

text \<open>
  \<^verbatim>\<open>
  for (unsigned int i = 0; i < numVariables; ++i)
  {
      unsigned int deg = degrees.at(i);
      DenseVector powi = DenseVector::Zero(deg+1);
      for (...) ...
      powers.push_back(powi);
  }
  \<close>
\<close>

function powers_loop :: "Polynomial \<Rightarrow> DenseVector \<Rightarrow> uint \<Rightarrow> DenseVector list \<Rightarrow> error + DenseVector list" where
  "powers_loop p x i powers =
     (if i < numVariables p then
        (case vector_at (degrees p) (unat i) of
           Inl e \<Rightarrow> Inl e
         | Inr deg \<Rightarrow>
             (case powi_loop x i deg 0 (Zero (unat (deg + 1))) of
                Inl e \<Rightarrow> Inl e
              | Inr pw \<Rightarrow> powers_loop p x (i + 1) (powers @ [pw])))
      else Inr powers)"
  by pat_completeness auto
termination
  by (relation "measure (\<lambda>(p, x, i, powers). unat (numVariables p) - unat i)")
     (simp, simp, unat_arith)

text \<open>
  \<^verbatim>\<open>
  DenseVector monomials = kroneckerProductVectors(powers);
  if (monomials.rows() != getNumCoefficients())
      throw Exception("...: monomials.rows() != numCoefficients.");
  return monomials.sparseView();
  \<close>
  \<^verbatim>\<open>rows()\<close> is a signed 64-bit index and the unsigned count is converted to it:
  the two are compared as numbers.
\<close>

definition check_rows :: "Polynomial \<Rightarrow> DenseVector \<Rightarrow> error + DenseVector" where
  "check_rows p monomials =
     (if length monomials \<noteq> unat (getNumCoefficients p) then Inl InvariantViolation
      else Inr monomials)"

definition evalBasisFunctions :: "Polynomial \<Rightarrow> DenseVector \<Rightarrow> error + DenseVector" where
  "evalBasisFunctions p x =
     (case powers_loop p x 0 [] of
        Inl e \<Rightarrow> Inl e
      | Inr powers \<Rightarrow> check_rows p (kroneckerProductVectors powers))"

subsection \<open>Evaluating the differentiated monomials\<close>

text \<open>
  \<^verbatim>\<open>
  // Differentiate wrt. x(i)
  for (unsigned int j = 1; j <= deg; ++j)
      powi(j) = j*std::pow(x(i), j-1);
  \<close>
  Entry 0 keeps the zero it was initialised with.
\<close>

function diff_powi_loop :: "DenseVector \<Rightarrow> uint \<Rightarrow> uint \<Rightarrow> uint \<Rightarrow> DenseVector \<Rightarrow> error + DenseVector" where
  "diff_powi_loop x i deg j pw =
     (if j \<le> deg then
        (case coeff x (unat i) of
           Inl e \<Rightarrow> Inl e
         | Inr xi \<Rightarrow>
             (case set_coeff pw (unat j) (of_nat (unat j) * xi ^ unat (j - 1)) of
                Inl e \<Rightarrow> Inl e
              | Inr pw' \<Rightarrow>
                  if j = - 1 then Inl NonTermination
                  else diff_powi_loop x i deg (j + 1) pw'))
      else Inr pw)"
  by pat_completeness auto
termination
proof (relation "measure (\<lambda>(x, i, deg, j, pw). 2 ^ 32 - unat j)")
  fix x pw pw' :: DenseVector and i deg j :: uint
  assume "j \<noteq> - 1"
  then have "unat (j + 1) = Suc (unat j)"
    using unatSuc [of j] max_word_wrap [of j] by (auto simp: add.commute)
  moreover have "unat j < 2 ^ 32"
    using unsigned_less [of j, where 'a = nat] by simp
  ultimately show "((x, i, deg, j + 1, pw'), (x, i, deg, j, pw))
      \<in> measure (\<lambda>(x, i, deg, j, pw). 2 ^ 32 - unat j)"
    by simp
qed simp

text \<open>
  \<^verbatim>\<open>
  for (unsigned int i = 0; i < numVariables; ++i)
  {
      unsigned int deg = degrees.at(i);
      DenseVector powi = DenseVector::Zero(deg+1);
      if (var == i) { ... differentiated loop ... }
      else          { ... plain loop ... }
      powers.push_back(powi);
  }
  \<close>
\<close>

function diff_powers_loop :: "Polynomial \<Rightarrow> DenseVector \<Rightarrow> uint \<Rightarrow> uint \<Rightarrow> DenseVector list \<Rightarrow> error + DenseVector list" where
  "diff_powers_loop p x var i powers =
     (if i < numVariables p then
        (case vector_at (degrees p) (unat i) of
           Inl e \<Rightarrow> Inl e
         | Inr deg \<Rightarrow>
             (case (if var = i then diff_powi_loop x i deg 1 (Zero (unat (deg + 1)))
                    else powi_loop x i deg 0 (Zero (unat (deg + 1)))) of
                Inl e \<Rightarrow> Inl e
              | Inr pw \<Rightarrow> diff_powers_loop p x var (i + 1) (powers @ [pw])))
      else Inr powers)"
  by pat_completeness auto
termination
  by (relation "measure (\<lambda>(p, x, var, i, powers). unat (numVariables p) - unat i)")
     (simp, simp, unat_arith)

text \<open>
  \<^verbatim>\<open>
  if (var < 0 || var >= numVariables)
      throw Exception("...: invalid variable.");
  \<close>
  \<^verbatim>\<open>var\<close> is unsigned, so \<^verbatim>\<open>var < 0\<close> is the test \<open>var < 0\<close> on words, which
  never holds.
\<close>

definition evalDifferentiatedMonomials :: "Polynomial \<Rightarrow> DenseVector \<Rightarrow> uint \<Rightarrow> error + DenseVector" where
  "evalDifferentiatedMonomials p x var =
     (if var < 0 \<or> var \<ge> numVariables p then Inl InvalidVariable
      else
        (case diff_powers_loop p x var 0 [] of
           Inl e \<Rightarrow> Inl e
         | Inr powers \<Rightarrow> check_rows p (kroneckerProductVectors powers)))"

subsection \<open>The Jacobian of the basis\<close>

text \<open>
  A \<^verbatim>\<open>DenseMatrix\<close> is its row count and the list of its columns (Eigen stores a
  matrix column by column). Assigning to the block \<^verbatim>\<open>jac.block(0,var,rows,1)\<close>
  replaces column \<^verbatim>\<open>var\<close>; Eigen asserts that the block lies inside the matrix and
  that the assigned vector has the block's size.
  \<^verbatim>\<open>
  DenseMatrix jac = DenseMatrix::Zero(getNumCoefficients(), numVariables);
  for (unsigned int var = 0; var < numVariables; ++var)
      jac.block(0,var,getNumCoefficients(),1) = evalDifferentiatedMonomials(x, var);
  return jac.sparseView();
  \<close>
\<close>

record DenseMatrix =
  rows :: nat
  columns :: "DenseVector list"

definition Zero_matrix :: "nat \<Rightarrow> nat \<Rightarrow> DenseMatrix" where
  "Zero_matrix r c = \<lparr> rows = r, columns = replicate c (Zero r) \<rparr>"

definition set_block_column :: "DenseMatrix \<Rightarrow> nat \<Rightarrow> nat \<Rightarrow> DenseVector \<Rightarrow> error + DenseMatrix" where
  "set_block_column jac var blockRows v =
     (if var < length (columns jac) \<and> blockRows \<le> rows jac \<and> length v = blockRows
      then Inr (jac\<lparr> columns := (columns jac)[var := v @ drop blockRows (columns jac ! var)] \<rparr>)
      else Inl EigenAssertion)"

function jac_loop :: "Polynomial \<Rightarrow> DenseVector \<Rightarrow> uint \<Rightarrow> DenseMatrix \<Rightarrow> error + DenseMatrix" where
  "jac_loop p x var jac =
     (if var < numVariables p then
        (case evalDifferentiatedMonomials p x var of
           Inl e \<Rightarrow> Inl e
         | Inr v \<Rightarrow>
             (case set_block_column jac (unat var) (unat (getNumCoefficients p)) v of
                Inl e \<Rightarrow> Inl e
              | Inr jac' \<Rightarrow> jac_loop p x (var + 1) jac'))
      else Inr jac)"
  by pat_completeness auto
termination
  by (relation "measure (\<lambda>(p, x, var, jac). unat (numVariables p) - unat var)")
     (simp, simp, unat_arith)

definition evalBasisFunctionsJacobian :: "Polynomial \<Rightarrow> DenseVector \<Rightarrow> error + DenseMatrix" where
  "evalBasisFunctionsJacobian p x =
     jac_loop p x 0 (Zero_matrix (unat (getNumCoefficients p)) (unat (numVariables p)))"

subsection \<open>The description\<close>

text \<open>
  \<^verbatim>\<open>std::to_string\<close> of an unsigned value is its decimal representation, without
  leading zeros.
\<close>

fun decimal :: "nat \<Rightarrow> string" where
  "decimal n = (if n < 10 then [''0123456789'' ! n]
                else decimal (n div 10) @ [''0123456789'' ! (n mod 10)])"

definition to_string :: "uint \<Rightarrow> string" where
  "to_string u = decimal (unat u)"

text \<open>
  \<^verbatim>\<open>
  bool equal = true;
  for (size_t i = 1; i < degrees.size(); ++i)
      equal = equal && (degrees.at(i) == degrees.at(i-1));
  \<close>
  \<^verbatim>\<open>&&\<close> does not evaluate its right operand when \<^verbatim>\<open>equal\<close> is false.
\<close>

function equal_loop :: "uint list \<Rightarrow> nat \<Rightarrow> bool \<Rightarrow> error + bool" where
  "equal_loop degs i equal =
     (if i < length degs then
        (if equal then
           (case vector_at degs i of
              Inl e \<Rightarrow> Inl e
            | Inr a \<Rightarrow>
                (case vector_at degs (i - 1) of
                   Inl e \<Rightarrow> Inl e
                 | Inr b \<Rightarrow> equal_loop degs (i + 1) (a = b)))
         else equal_loop degs (i + 1) False)
      else Inr equal)"
  by pat_completeness auto
termination
  by (relation "measure (\<lambda>(degs, i, equal). length degs - i)") auto

text \<open>
  \<^verbatim>\<open>
  for (size_t i = 0; i < degrees.size(); ++i) {
      description.append(std::to_string(degrees.at(i)));
      if (i + 1 < degrees.size())
          description.append(", ");
  }
  \<close>
\<close>

function list_loop :: "uint list \<Rightarrow> nat \<Rightarrow> string \<Rightarrow> error + string" where
  "list_loop degs i description =
     (if i < length degs then
        (case vector_at degs i of
           Inl e \<Rightarrow> Inl e
         | Inr d \<Rightarrow>
             list_loop degs (i + 1)
               (if i + 1 < length degs then description @ to_string d @ '', ''
                else description @ to_string d))
      else Inr description)"
  by pat_completeness auto
termination
  by (relation "measure (\<lambda>(degs, i, description). length degs - i)") auto

text \<open>
  \<^verbatim>\<open>
  std::string description("PolynomialApproximant of degree");
  ...
  if (equal)
  {
      description.append(" ");
      description.append(std::to_string(degrees.at(0)));
  }
  else
  {
      description.append("s (");
      ...
      description.append(")");
  }
  return description;
  \<close>
\<close>

definition getDescription :: "Polynomial \<Rightarrow> error + string" where
  "getDescription p =
     (case equal_loop (degrees p) 1 True of
        Inl e \<Rightarrow> Inl e
      | Inr equal \<Rightarrow>
          if equal then
            (case vector_at (degrees p) 0 of
               Inl e \<Rightarrow> Inl e
             | Inr d \<Rightarrow> Inr (''PolynomialApproximant of degree'' @ '' '' @ to_string d))
          else
            (case list_loop (degrees p) 0 (''PolynomialApproximant of degree'' @ ''s ('') of
               Inl e \<Rightarrow> Inl e
             | Inr description \<Rightarrow> Inr (description @ '')'')))"

section \<open>The evaluation with IEEE 754 infinities and NaN\<close>

text \<open>
  The embedding above takes \<^verbatim>\<open>double\<close> as \<open>real\<close>. That is exact up to rounding as
  long as every value stays in the range of \<^verbatim>\<open>double\<close>. A power or a product beyond
  the range is an infinity in the code, and zero times an infinity is NaN, which no real
  number models. The functions of this section are the same functions of the source,
  written over a type with these values; a property that depends on them is stated here.

  A \<^verbatim>\<open>double\<close> is a finite value, an infinity or NaN. The two zeros of IEEE 754 compare
  equal and are one value, \<open>Finite 0\<close>. The rounding of a finite result is not
  modelled; a result overflows to an infinity from \<open>2 ^ 1024 - 2 ^ 970\<close> on, the bound of
  rounding to nearest. \<open>Finite r\<close> stands for a \<^verbatim>\<open>double\<close> only for an \<open>r\<close> that is one.
\<close>

datatype double = Finite real | PlusInfinity | MinusInfinity | NaN

type_synonym DoubleVector = "double list"

definition overflow :: "real \<Rightarrow> double" where
  "overflow r =
     (if 2 ^ 1024 - 2 ^ 970 \<le> r then PlusInfinity
      else if r \<le> - (2 ^ 1024 - 2 ^ 970) then MinusInfinity
      else Finite r)"


text \<open>
  The product of IEEE 754: NaN if an operand is NaN, NaN for zero times an infinity, an
  infinity with the sign of the product where an operand is one.
\<close>

fun multiply :: "double \<Rightarrow> double \<Rightarrow> double" where
  "multiply NaN b = NaN"
| "multiply a NaN = NaN"
| "multiply (Finite a) (Finite b) = overflow (a * b)"
| "multiply (Finite a) PlusInfinity =
     (if a = 0 then NaN else if 0 < a then PlusInfinity else MinusInfinity)"
| "multiply (Finite a) MinusInfinity =
     (if a = 0 then NaN else if 0 < a then MinusInfinity else PlusInfinity)"
| "multiply PlusInfinity (Finite b) =
     (if b = 0 then NaN else if 0 < b then PlusInfinity else MinusInfinity)"
| "multiply MinusInfinity (Finite b) =
     (if b = 0 then NaN else if 0 < b then MinusInfinity else PlusInfinity)"
| "multiply PlusInfinity PlusInfinity = PlusInfinity"
| "multiply PlusInfinity MinusInfinity = MinusInfinity"
| "multiply MinusInfinity PlusInfinity = MinusInfinity"
| "multiply MinusInfinity MinusInfinity = PlusInfinity"

text \<open>
  \<^verbatim>\<open>std::pow(x, j)\<close> for an \<^verbatim>\<open>unsigned int j\<close>, which converts to \<^verbatim>\<open>double\<close> exactly.
  By Annex F of the C standard \<^verbatim>\<open>pow(x, 0)\<close> is 1 for every \<open>x\<close>, also for NaN;
  \<^verbatim>\<open>pow(+inf, j)\<close> is plus infinity for \<open>j > 0\<close>, and \<^verbatim>\<open>pow(-inf, j)\<close> is minus
  infinity for an odd \<open>j\<close> and plus infinity for an even \<open>j > 0\<close>.
\<close>

definition std_pow :: "double \<Rightarrow> nat \<Rightarrow> double" where
  "std_pow x j =
     (if j = 0 then Finite 1
      else case x of
        Finite r \<Rightarrow> overflow (r ^ j)
      | PlusInfinity \<Rightarrow> PlusInfinity
      | MinusInfinity \<Rightarrow> (if odd j then MinusInfinity else PlusInfinity)
      | NaN \<Rightarrow> NaN)"

text \<open>Eigen's element access and \<^verbatim>\<open>DenseVector::Zero\<close>, as above.\<close>

definition coeff_ieee :: "DoubleVector \<Rightarrow> nat \<Rightarrow> error + double" where
  "coeff_ieee v i = (if i < length v then Inr (v ! i) else Inl EigenAssertion)"

definition set_coeff_ieee :: "DoubleVector \<Rightarrow> nat \<Rightarrow> double \<Rightarrow> error + DoubleVector" where
  "set_coeff_ieee v i a = (if i < length v then Inr (v[i := a]) else Inl EigenAssertion)"

definition Zero_ieee :: "nat \<Rightarrow> DoubleVector" where
  "Zero_ieee n = replicate n (Finite 0)"

text \<open>
  Modelled from the spec: \<^verbatim>\<open>kroneckerProductVectors\<close> of the absent
  \<^verbatim>\<open>mykroneckerproduct.h\<close>, as above: the running vector starts as \<open>[1]\<close> and is
  Kronecker-multiplied by each vector in turn, every entry one product of two entries.
\<close>

definition kroneckerProduct_ieee :: "DoubleVector \<Rightarrow> DoubleVector \<Rightarrow> DoubleVector" where
  "kroneckerProduct_ieee a b = concat (map (\<lambda>ai. map (\<lambda>bj. multiply ai bj) b) a)"

definition kroneckerProductVectors_ieee :: "DoubleVector list \<Rightarrow> DoubleVector" where
  "kroneckerProductVectors_ieee vectors = foldl kroneckerProduct_ieee [Finite 1] vectors"

text \<open>
  \<^verbatim>\<open>
  for (unsigned int j = 0; j <= deg; ++j)
      powi(j) = std::pow(x(i), j);
  \<close>
\<close>

function powi_loop_ieee :: "DoubleVector \<Rightarrow> uint \<Rightarrow> uint \<Rightarrow> uint \<Rightarrow> DoubleVector \<Rightarrow> error + DoubleVector" where
  "powi_loop_ieee x i deg j pw =
     (if j \<le> deg then
        (case coeff_ieee x (unat i) of
           Inl e \<Rightarrow> Inl e
         | Inr xi \<Rightarrow>
             (case set_coeff_ieee pw (unat j) (std_pow xi (unat j)) of
                Inl e \<Rightarrow> Inl e
              | Inr pw' \<Rightarrow>
                  if j = - 1 then Inl NonTermination
                  else powi_loop_ieee x i deg (j + 1) pw'))
      else Inr pw)"
  by pat_completeness auto
termination
proof (relation "measure (\<lambda>(x, i, deg, j, pw). 2 ^ 32 - unat j)")
  fix x pw pw' :: DoubleVector and i deg j :: uint
  assume "j \<noteq> - 1"
  then have "unat (j + 1) = Suc (unat j)"
    using unatSuc [of j] max_word_wrap [of j] by (auto simp: add.commute)
  moreover have "unat j < 2 ^ 32"
    using unsigned_less [of j, where 'a = nat] by simp
  ultimately show "((x, i, deg, j + 1, pw'), (x, i, deg, j, pw))
      \<in> measure (\<lambda>(x, i, deg, j, pw). 2 ^ 32 - unat j)"
    by simp
qed simp

text \<open>
  \<^verbatim>\<open>
  for (unsigned int i = 0; i < numVariables; ++i)
  {
      unsigned int deg = degrees.at(i);
      DenseVector powi = DenseVector::Zero(deg+1);
      for (...) ...
      powers.push_back(powi);
  }
  \<close>
\<close>

function powers_loop_ieee :: "Polynomial \<Rightarrow> DoubleVector \<Rightarrow> uint \<Rightarrow> DoubleVector list \<Rightarrow> error + DoubleVector list" where
  "powers_loop_ieee p x i powers =
     (if i < numVariables p then
        (case vector_at (degrees p) (unat i) of
           Inl e \<Rightarrow> Inl e
         | Inr deg \<Rightarrow>
             (case powi_loop_ieee x i deg 0 (Zero_ieee (unat (deg + 1))) of
                Inl e \<Rightarrow> Inl e
              | Inr pw \<Rightarrow> powers_loop_ieee p x (i + 1) (powers @ [pw])))
      else Inr powers)"
  by pat_completeness auto
termination
  by (relation "measure (\<lambda>(p, x, i, powers). unat (numVariables p) - unat i)")
     (simp, simp, unat_arith)

text \<open>
  \<^verbatim>\<open>
  DenseVector monomials = kroneckerProductVectors(powers);
  if (monomials.rows() != getNumCoefficients())
      throw Exception("...: monomials.rows() != numCoefficients.");
  return monomials.sparseView();
  \<close>
  The sparse view keeps every entry that is not zero, NaN included.
\<close>

definition check_rows_ieee :: "Polynomial \<Rightarrow> DoubleVector \<Rightarrow> error + DoubleVector" where
  "check_rows_ieee p monomials =
     (if length monomials \<noteq> unat (getNumCoefficients p) then Inl InvariantViolation
      else Inr monomials)"


text \<open>
  \<^verbatim>\<open>
  // Differentiate wrt. x(i)
  for (unsigned int j = 1; j <= deg; ++j)
      powi(j) = j*std::pow(x(i), j-1);
  \<close>
\<close>

function diff_powi_loop_ieee :: "DoubleVector \<Rightarrow> uint \<Rightarrow> uint \<Rightarrow> uint \<Rightarrow> DoubleVector \<Rightarrow> error + DoubleVector" where
  "diff_powi_loop_ieee x i deg j pw =
     (if j \<le> deg then
        (case coeff_ieee x (unat i) of
           Inl e \<Rightarrow> Inl e
         | Inr xi \<Rightarrow>
             (case set_coeff_ieee pw (unat j)
                     (multiply (Finite (of_nat (unat j))) (std_pow xi (unat (j - 1)))) of
                Inl e \<Rightarrow> Inl e
              | Inr pw' \<Rightarrow>
                  if j = - 1 then Inl NonTermination
                  else diff_powi_loop_ieee x i deg (j + 1) pw'))
      else Inr pw)"
  by pat_completeness auto
termination
proof (relation "measure (\<lambda>(x, i, deg, j, pw). 2 ^ 32 - unat j)")
  fix x pw pw' :: DoubleVector and i deg j :: uint
  assume "j \<noteq> - 1"
  then have "unat (j + 1) = Suc (unat j)"
    using unatSuc [of j] max_word_wrap [of j] by (auto simp: add.commute)
  moreover have "unat j < 2 ^ 32"
    using unsigned_less [of j, where 'a = nat] by simp
  ultimately show "((x, i, deg, j + 1, pw'), (x, i, deg, j, pw))
      \<in> measure (\<lambda>(x, i, deg, j, pw). 2 ^ 32 - unat j)"
    by simp
qed simp

text \<open>
  \<^verbatim>\<open>
  for (unsigned int i = 0; i < numVariables; ++i)
  {
      unsigned int deg = degrees.at(i);
      DenseVector powi = DenseVector::Zero(deg+1);
      if (var == i) { ... differentiated loop ... }
      else          { ... plain loop ... }
      powers.push_back(powi);
  }
  \<close>
\<close>

function diff_powers_loop_ieee :: "Polynomial \<Rightarrow> DoubleVector \<Rightarrow> uint \<Rightarrow> uint \<Rightarrow> DoubleVector list \<Rightarrow> error + DoubleVector list" where
  "diff_powers_loop_ieee p x var i powers =
     (if i < numVariables p then
        (case vector_at (degrees p) (unat i) of
           Inl e \<Rightarrow> Inl e
         | Inr deg \<Rightarrow>
             (case (if var = i then diff_powi_loop_ieee x i deg 1 (Zero_ieee (unat (deg + 1)))
                    else powi_loop_ieee x i deg 0 (Zero_ieee (unat (deg + 1)))) of
                Inl e \<Rightarrow> Inl e
              | Inr pw \<Rightarrow> diff_powers_loop_ieee p x var (i + 1) (powers @ [pw])))
      else Inr powers)"
  by pat_completeness auto
termination
  by (relation "measure (\<lambda>(p, x, var, i, powers). unat (numVariables p) - unat i)")
     (simp, simp, unat_arith)

text \<open>
  \<^verbatim>\<open>
  if (var < 0 || var >= numVariables)
      throw Exception("...: invalid variable.");
  \<close>
\<close>

definition evalDifferentiatedMonomials_ieee :: "Polynomial \<Rightarrow> DoubleVector \<Rightarrow> uint \<Rightarrow> error + DoubleVector" where
  "evalDifferentiatedMonomials_ieee p x var =
     (if var < 0 \<or> var \<ge> numVariables p then Inl InvalidVariable
      else
        (case diff_powers_loop_ieee p x var 0 [] of
           Inl e \<Rightarrow> Inl e
         | Inr powers \<Rightarrow> check_rows_ieee p (kroneckerProductVectors_ieee powers)))"

text \<open>
  \<^verbatim>\<open>
  DenseMatrix jac = DenseMatrix::Zero(getNumCoefficients(), numVariables);
  for (unsigned int var = 0; var < numVariables; ++var)
      jac.block(0,var,getNumCoefficients(),1) = evalDifferentiatedMonomials(x, var);
  return jac.sparseView();
  \<close>
\<close>

record DenseMatrix_ieee =
  rows_ieee :: nat
  columns_ieee :: "DoubleVector list"


definition set_block_column_ieee :: "DenseMatrix_ieee \<Rightarrow> nat \<Rightarrow> nat \<Rightarrow> DoubleVector \<Rightarrow> error + DenseMatrix_ieee" where
  "set_block_column_ieee jac var blockRows v =
     (if var < length (columns_ieee jac) \<and> blockRows \<le> rows_ieee jac \<and> length v = blockRows
      then Inr (jac\<lparr> columns_ieee :=
             (columns_ieee jac)[var := v @ drop blockRows (columns_ieee jac ! var)] \<rparr>)
      else Inl EigenAssertion)"

function jac_loop_ieee :: "Polynomial \<Rightarrow> DoubleVector \<Rightarrow> uint \<Rightarrow> DenseMatrix_ieee \<Rightarrow> error + DenseMatrix_ieee" where
  "jac_loop_ieee p x var jac =
     (if var < numVariables p then
        (case evalDifferentiatedMonomials_ieee p x var of
           Inl e \<Rightarrow> Inl e
         | Inr v \<Rightarrow>
             (case set_block_column_ieee jac (unat var) (unat (getNumCoefficients p)) v of
                Inl e \<Rightarrow> Inl e
              | Inr jac' \<Rightarrow> jac_loop_ieee p x (var + 1) jac'))
      else Inr jac)"
  by pat_completeness auto
termination
  by (relation "measure (\<lambda>(p, x, var, jac). unat (numVariables p) - unat var)")
     (simp, simp, unat_arith)


section \<open>The specification's notions\<close>

text \<open>
  These definitions are written from the specification, not from the code; the theorems
  below compare the two.

  Section 3: the power vector of a dimension has length \<open>degree + 1\<close> and entry \<open>j\<close>
  is \<open>x ^ j\<close>; the derivative power vector has entry 0 fixed at 0 and entry \<open>j\<close>
  equal to \<open>j * x ^ (j - 1)\<close>.
\<close>

definition power_vector :: "real \<Rightarrow> nat \<Rightarrow> DenseVector" where
  "power_vector xi d = map (\<lambda>j. xi ^ j) [0..<Suc d]"

definition derivative_power_vector :: "real \<Rightarrow> nat \<Rightarrow> DenseVector" where
  "derivative_power_vector xi d = 0 # map (\<lambda>j. of_nat j * xi ^ (j - 1)) [1..<Suc d]"

text \<open>
  The power vectors of all dimensions, in dimension order, and the same list with the
  vector of dimension \<open>v\<close> replaced by its derivative (section 4.3).
\<close>

definition power_vectors :: "DenseVector \<Rightarrow> uint list \<Rightarrow> DenseVector list" where
  "power_vectors x degs = map2 (\<lambda>xi deg. power_vector xi (unat deg)) x degs"

definition differentiated_power_vectors :: "DenseVector \<Rightarrow> uint list \<Rightarrow> nat \<Rightarrow> DenseVector list" where
  "differentiated_power_vectors x degs v =
     (power_vectors x degs)[v := derivative_power_vector (x ! v) (unat (degs ! v))]"

text \<open>The vector that the loops of the code build for dimension \<open>k\<close>.\<close>

definition plain_powers :: "Polynomial \<Rightarrow> DenseVector \<Rightarrow> nat \<Rightarrow> DenseVector" where
  "plain_powers p x k = power_vector (x ! k) (unat (degrees p ! k))"

definition diff_powers :: "Polynomial \<Rightarrow> DenseVector \<Rightarrow> nat \<Rightarrow> nat \<Rightarrow> DenseVector" where
  "diff_powers p x v k =
     (if k = v then derivative_power_vector (x ! k) (unat (degrees p ! k))
      else plain_powers p x k)"

text \<open>
  The glossary: the tensor product combines the per-dimension vectors into one vector
  indexed by all combinations of per-dimension indices, in lexicographic order, the
  first dimension outermost and the last dimension varying fastest.
\<close>

fun lex_product :: "DenseVector list \<Rightarrow> DenseVector" where
  "lex_product [] = [1]"
| "lex_product (v # vs) = concat (map (\<lambda>a. map (\<lambda>b. a * b) (lex_product vs)) v)"

text \<open>
  Section 3, the central invariant: the degree spec has one entry per variable, and the
  coefficient vector has \<^verbatim>\<open>computeNumBasisFunctions(degrees)\<close> entries, which is the
  product of all \<open>degree + 1\<close>.
\<close>

definition invariant :: "Polynomial \<Rightarrow> bool" where
  "invariant p \<longleftrightarrow>
     unat (numVariables p) = length (degrees p) \<and>
     length (coefficients p) = unat (computeNumBasisFunctions (degrees p)) \<and>
     unat (computeNumBasisFunctions (degrees p)) = (\<Prod>deg\<leftarrow>degrees p. Suc (unat deg))"

text \<open>
  The glossary: a basis function is one term \<open>x\<^sub>0 ^ j\<^sub>0 * x\<^sub>1 ^ j\<^sub>1 * \<dots>\<close>, one for
  each combination of per-dimension exponents \<open>j\<^sub>k \<le> degree\<^sub>k\<close>. \<open>product_lists\<close>
  enumerates the combinations in lexicographic order, the last exponent varying fastest.
\<close>

definition monomial :: "DenseVector \<Rightarrow> nat list \<Rightarrow> real" where
  "monomial x js = prod_list (map2 (\<lambda>xi j. xi ^ j) x js)"

definition multi_indices :: "uint list \<Rightarrow> nat list list" where
  "multi_indices degs = product_lists (map (\<lambda>deg. [0..<Suc (unat deg)]) degs)"

text \<open>
  Section 4.4: the description lists the degrees in dimension order, separated by
  commas.
\<close>

fun comma_join :: "string list \<Rightarrow> string" where
  "comma_join [] = []"
| "comma_join [s] = s"
| "comma_join (s # t # ts) = s @ '', '' @ comma_join (t # ts)"

text \<open>
  The power vector, the derivative power vector and column \<open>v\<close> of the Jacobian
  (section 3), in the arithmetic of \<^verbatim>\<open>double\<close>.
\<close>

definition power_vector_ieee :: "double \<Rightarrow> nat \<Rightarrow> DoubleVector" where
  "power_vector_ieee xi d = map (\<lambda>j. std_pow xi j) [0..<Suc d]"

definition derivative_power_vector_ieee :: "double \<Rightarrow> nat \<Rightarrow> DoubleVector" where
  "derivative_power_vector_ieee xi d =
     Finite 0 # map (\<lambda>j. multiply (Finite (of_nat j)) (std_pow xi (j - 1))) [1..<Suc d]"

definition plain_powers_ieee :: "Polynomial \<Rightarrow> DoubleVector \<Rightarrow> nat \<Rightarrow> DoubleVector" where
  "plain_powers_ieee p x k = power_vector_ieee (x ! k) (unat (degrees p ! k))"

definition diff_powers_ieee :: "Polynomial \<Rightarrow> DoubleVector \<Rightarrow> nat \<Rightarrow> nat \<Rightarrow> DoubleVector" where
  "diff_powers_ieee p x v k =
     (if k = v then derivative_power_vector_ieee (x ! k) (unat (degrees p ! k))
      else plain_powers_ieee p x k)"


section \<open>Properties\<close>

declare powi_loop.simps [simp del] diff_powi_loop.simps [simp del] powers_loop.simps [simp del]
  diff_powers_loop.simps [simp del] jac_loop.simps [simp del] equal_loop.simps [simp del]
  list_loop.simps [simp del] decimal.simps [simp del]

declare powi_loop_ieee.simps [simp del] diff_powi_loop_ieee.simps [simp del]
  powers_loop_ieee.simps [simp del] diff_powers_loop_ieee.simps [simp del]
  jac_loop_ieee.simps [simp del]

subsection \<open>The basis count\<close>

lemma numMonomials_loop_prod:
  "numMonomials_loop acc degs = acc * prod_list (map (\<lambda>deg. deg + 1) degs)"
  by (induction degs arbitrary: acc) (simp_all add: mult.assoc)

lemma unat_numMonomials_loop:
  "unat (numMonomials_loop acc degs) = (unat acc * (\<Prod>deg\<leftarrow>degs. Suc (unat deg))) mod 2 ^ 32"
proof (induction degs arbitrary: acc)
  case Nil
  show ?case using unsigned_less [of acc, where 'a = nat] by simp
next
  case (Cons deg degs)
  have a: "unat (acc * (deg + 1)) = (unat acc * Suc (unat deg)) mod 2 ^ 32"
    by (simp add: unat_word_ariths mod_simps)
  have "unat (numMonomials_loop (acc * (deg + 1)) degs) =
      (unat (acc * (deg + 1)) * (\<Prod>deg\<leftarrow>degs. Suc (unat deg))) mod 2 ^ 32"
    by (rule Cons.IH)
  also have "\<dots> = ((unat acc * Suc (unat deg)) mod 2 ^ 32 * (\<Prod>deg\<leftarrow>degs. Suc (unat deg))) mod 2 ^ 32"
    by (simp only: a)
  also have "\<dots> = (unat acc * Suc (unat deg) * (\<Prod>deg\<leftarrow>degs. Suc (unat deg))) mod 2 ^ 32"
    by (rule mod_mult_left_eq)
  finally show ?case
    by (simp only: numMonomials_loop.simps list.map prod_list.Cons mult.assoc)
qed

lemma unat_computeNumBasisFunctions:
  "unat (computeNumBasisFunctions degs) = (\<Prod>deg\<leftarrow>degs. Suc (unat deg)) mod 2 ^ 32"
  by (simp add: computeNumBasisFunctions_def unat_numMonomials_loop)

subsection \<open>The inner loops build the power vectors\<close>

lemma unat_plus1: "w \<noteq> - 1 \<Longrightarrow> unat (w + 1) = Suc (unat w)" for w :: uint
  using unatSuc [of w] max_word_wrap [of w] by (auto simp: add.commute)

lemma le_not_max: "j \<le> deg \<Longrightarrow> deg \<noteq> - 1 \<Longrightarrow> j \<noteq> - 1" for j deg :: uint
  by (metis word_order.extremum_unique)

lemma powi_loop_take:
  assumes "unat i < length x" and "length pw = Suc (unat deg)" and "deg \<noteq> - 1"
    and "unat j \<le> Suc (unat deg)"
  shows "powi_loop x i deg j pw =
    Inr (take (unat j) pw @ map (\<lambda>k. (x ! unat i) ^ k) [unat j..<Suc (unat deg)])"
  using assms
proof (induction x i deg j pw rule: powi_loop.induct)
  case (1 x i deg j pw)
  show ?case
  proof (cases "j \<le> deg")
    case True
    then have jd: "unat j \<le> unat deg" by (simp add: word_le_nat_alt)
    from True "1.prems"(3) have jm: "j \<noteq> - 1" by (rule le_not_max)
    then have sj: "unat (j + 1) = Suc (unat j)" by (rule unat_plus1)
    let ?xi = "x ! unat i"
    let ?pw = "pw[unat j := ?xi ^ unat j]"
    have c: "coeff x (unat i) = Inr ?xi" using "1.prems" by (simp add: coeff_def)
    have s: "set_coeff pw (unat j) (?xi ^ unat j) = Inr ?pw"
      using "1.prems" jd by (simp add: set_coeff_def)
    have "powi_loop x i deg (j + 1) ?pw =
      Inr (take (unat (j + 1)) ?pw @ map (\<lambda>k. ?xi ^ k) [unat (j + 1)..<Suc (unat deg)])"
      using "1.prems" jd sj by (intro "1.IH" [OF True c s jm]) simp_all
    moreover have "take (Suc (unat j)) ?pw = take (unat j) pw @ [?xi ^ unat j]"
      using "1.prems" jd by (simp add: take_Suc_conv_app_nth)
    moreover have "[unat j..<Suc (unat deg)] = unat j # [Suc (unat j)..<Suc (unat deg)]"
      using jd by (simp add: upt_conv_Cons)
    ultimately show ?thesis
      using True c s jm sj by (subst powi_loop.simps) simp
  next
    case False
    then have "unat j = Suc (unat deg)"
      using "1.prems" by (simp add: word_le_nat_alt)
    then show ?thesis
      using False "1.prems" by (subst powi_loop.simps) simp
  qed
qed

lemma powi_loop_power_vector:
  assumes "unat i < length x" and "deg \<noteq> - 1"
  shows "powi_loop x i deg 0 (Zero (unat (deg + 1))) = Inr (power_vector (x ! unat i) (unat deg))"
  using powi_loop_take [of i x "Zero (unat (deg + 1))" deg 0] assms
  by (simp add: Zero_def unat_plus1 power_vector_def)

lemma unat_minus1: "w \<noteq> 0 \<Longrightarrow> unat (w - 1) = unat w - 1" for w :: uint
  by (simp add: unat_minus_one)

lemma diff_powi_loop_take:
  assumes "unat i < length x" and "length pw = Suc (unat deg)" and "deg \<noteq> - 1"
    and "unat j \<le> Suc (unat deg)" and "j \<noteq> 0"
  shows "diff_powi_loop x i deg j pw =
    Inr (take (unat j) pw @
         map (\<lambda>k. of_nat k * (x ! unat i) ^ (k - 1)) [unat j..<Suc (unat deg)])"
  using assms
proof (induction x i deg j pw rule: diff_powi_loop.induct)
  case (1 x i deg j pw)
  show ?case
  proof (cases "j \<le> deg")
    case True
    then have jd: "unat j \<le> unat deg" by (simp add: word_le_nat_alt)
    from True "1.prems"(3) have jm: "j \<noteq> - 1" by (rule le_not_max)
    then have sj: "unat (j + 1) = Suc (unat j)" by (rule unat_plus1)
    then have nz: "j + 1 \<noteq> 0" by (metis Zero_not_Suc unat_0)
    let ?xi = "x ! unat i"
    let ?a = "of_nat (unat j) * ?xi ^ unat (j - 1)"
    let ?pw = "pw[unat j := ?a]"
    have c: "coeff x (unat i) = Inr ?xi" using "1.prems" by (simp add: coeff_def)
    have s: "set_coeff pw (unat j) ?a = Inr ?pw"
      using "1.prems" jd by (simp add: set_coeff_def)
    have "diff_powi_loop x i deg (j + 1) ?pw =
      Inr (take (unat (j + 1)) ?pw @
           map (\<lambda>k. of_nat k * ?xi ^ (k - 1)) [unat (j + 1)..<Suc (unat deg)])"
      using "1.prems" jd sj nz by (intro "1.IH" [OF True c s jm]) simp_all
    moreover have "take (Suc (unat j)) ?pw = take (unat j) pw @ [?a]"
      using "1.prems" jd by (simp add: take_Suc_conv_app_nth)
    moreover have "[unat j..<Suc (unat deg)] = unat j # [Suc (unat j)..<Suc (unat deg)]"
      using jd by (simp add: upt_conv_Cons)
    moreover have "unat (j - 1) = unat j - 1"
      using "1.prems" by (simp add: unat_minus1)
    ultimately show ?thesis
      using True c s jm sj by (subst diff_powi_loop.simps) simp
  next
    case False
    then have "unat j = Suc (unat deg)"
      using "1.prems" by (simp add: word_le_nat_alt)
    then show ?thesis
      using False "1.prems" by (subst diff_powi_loop.simps) simp
  qed
qed

lemma diff_powi_loop_derivative_power_vector:
  assumes "unat i < length x" and "deg \<noteq> - 1"
  shows "diff_powi_loop x i deg 1 (Zero (unat (deg + 1))) =
    Inr (derivative_power_vector (x ! unat i) (unat deg))"
  using diff_powi_loop_take [of i x "Zero (unat (deg + 1))" deg 1] assms
  by (simp add: Zero_def unat_plus1 derivative_power_vector_def)

subsection \<open>The outer loops collect them in dimension order\<close>

lemma powers_loop_map:
  assumes "unat (numVariables p) \<le> length (degrees p)"
    and "unat (numVariables p) \<le> length x"
    and "\<forall>k<unat (numVariables p). degrees p ! k \<noteq> - 1"
  shows "powers_loop p x i powers =
    Inr (powers @ map (plain_powers p x) [unat i..<unat (numVariables p)])"
  using assms
proof (induction p x i powers rule: powers_loop.induct)
  case (1 p x i powers)
  show ?case
  proof (cases "i < numVariables p")
    case True
    then have il: "unat i < unat (numVariables p)" by (simp add: word_less_nat_alt)
    from True have "i \<noteq> - 1" by (metis word_order.extremum_strict)
    then have si: "unat (i + 1) = Suc (unat i)" by (rule unat_plus1)
    let ?deg = "degrees p ! unat i"
    have a: "vector_at (degrees p) (unat i) = Inr ?deg"
      using "1.prems" il by (simp add: vector_at_def)
    have d: "?deg \<noteq> - 1" using "1.prems" il by simp
    have l: "powi_loop x i ?deg 0 (Zero (unat (?deg + 1))) = Inr (plain_powers p x (unat i))"
      using "1.prems" il d by (simp add: powi_loop_power_vector plain_powers_def)
    have "powers_loop p x (i + 1) (powers @ [plain_powers p x (unat i)]) =
      Inr ((powers @ [plain_powers p x (unat i)]) @
           map (plain_powers p x) [unat (i + 1)..<unat (numVariables p)])"
      using "1.prems" by (intro "1.IH" [OF True a l])
    moreover have "[unat i..<unat (numVariables p)] =
      unat i # [Suc (unat i)..<unat (numVariables p)]"
      using il by (simp add: upt_conv_Cons)
    ultimately show ?thesis
      using True a l si by (subst powers_loop.simps) simp
  next
    case False
    then have "unat (numVariables p) \<le> unat i" by (simp add: word_less_nat_alt)
    then show ?thesis
      using False by (subst powers_loop.simps) simp
  qed
qed

lemma diff_powers_loop_map:
  assumes "unat (numVariables p) \<le> length (degrees p)"
    and "unat (numVariables p) \<le> length x"
    and "\<forall>k<unat (numVariables p). degrees p ! k \<noteq> - 1"
  shows "diff_powers_loop p x var i powers =
    Inr (powers @ map (diff_powers p x (unat var)) [unat i..<unat (numVariables p)])"
  using assms
proof (induction p x var i powers rule: diff_powers_loop.induct)
  case (1 p x var i powers)
  show ?case
  proof (cases "i < numVariables p")
    case True
    then have il: "unat i < unat (numVariables p)" by (simp add: word_less_nat_alt)
    from True have "i \<noteq> - 1" by (metis word_order.extremum_strict)
    then have si: "unat (i + 1) = Suc (unat i)" by (rule unat_plus1)
    let ?deg = "degrees p ! unat i"
    let ?z = "Zero (unat (?deg + 1))"
    have a: "vector_at (degrees p) (unat i) = Inr ?deg"
      using "1.prems" il by (simp add: vector_at_def)
    have d: "?deg \<noteq> - 1" using "1.prems" il by simp
    have l: "(if var = i then diff_powi_loop x i ?deg 1 ?z else powi_loop x i ?deg 0 ?z) =
      Inr (diff_powers p x (unat var) (unat i))"
      using "1.prems" il d
      by (simp add: powi_loop_power_vector diff_powi_loop_derivative_power_vector
          plain_powers_def diff_powers_def word_unat_eq_iff)
    have "diff_powers_loop p x var (i + 1) (powers @ [diff_powers p x (unat var) (unat i)]) =
      Inr ((powers @ [diff_powers p x (unat var) (unat i)]) @
           map (diff_powers p x (unat var)) [unat (i + 1)..<unat (numVariables p)])"
      using "1.prems" by (intro "1.IH" [OF True a l])
    moreover have "[unat i..<unat (numVariables p)] =
      unat i # [Suc (unat i)..<unat (numVariables p)]"
      using il by (simp add: upt_conv_Cons)
    ultimately show ?thesis
      using True a l si by (subst diff_powers_loop.simps) (simp del: if_split)
  next
    case False
    then have "unat (numVariables p) \<le> unat i" by (simp add: word_less_nat_alt)
    then show ?thesis
      using False by (subst diff_powers_loop.simps) simp
  qed
qed

subsection \<open>The Kronecker product of a list of vectors\<close>

lemma kroneckerProduct_Nil [simp]: "kroneckerProduct [] b = []"
  by (simp add: kroneckerProduct_def)

lemma kroneckerProduct_Cons:
  "kroneckerProduct (a # as) b = map (\<lambda>bj. a * bj) b @ kroneckerProduct as b"
  by (simp add: kroneckerProduct_def)

lemma length_kroneckerProduct: "length (kroneckerProduct a b) = length a * length b"
  by (induction a) (simp_all add: kroneckerProduct_Cons)

lemma kroneckerProduct_append:
  "kroneckerProduct (a @ a') b = kroneckerProduct a b @ kroneckerProduct a' b"
  by (simp add: kroneckerProduct_def)

lemma kroneckerProduct_scale:
  "kroneckerProduct (map (\<lambda>bj. c * bj) b) d = map (\<lambda>e. c * e) (kroneckerProduct b d)"
  by (induction b) (simp_all add: kroneckerProduct_Cons mult.assoc)

lemma kroneckerProduct_assoc:
  "kroneckerProduct (kroneckerProduct a b) c = kroneckerProduct a (kroneckerProduct b c)"
  by (induction a)
    (simp_all add: kroneckerProduct_Cons kroneckerProduct_append kroneckerProduct_scale)

lemma kroneckerProduct_unit [simp]: "kroneckerProduct [1] b = b"
  by (simp add: kroneckerProduct_def map_idI)

lemma lex_product_Cons: "lex_product (v # vs) = kroneckerProduct v (lex_product vs)"
  by (simp add: kroneckerProduct_def)

lemma foldl_kroneckerProduct:
  "foldl kroneckerProduct acc vs = kroneckerProduct acc (lex_product vs)"
proof (induction vs arbitrary: acc)
  case Nil
  show ?case by (induction acc) (simp_all add: kroneckerProduct_Cons)
next
  case (Cons v vs)
  show ?case
    by (simp only: foldl_Cons Cons.IH kroneckerProduct_assoc lex_product_Cons)
qed

lemma kroneckerProductVectors_lex_product: "kroneckerProductVectors vs = lex_product vs"
  by (simp add: kroneckerProductVectors_def foldl_kroneckerProduct)

lemma length_lex_product: "length (lex_product vs) = prod_list (map length vs)"
  by (induction vs) (simp_all only: lex_product_Cons length_kroneckerProduct, simp_all)

lemma length_kroneckerProductVectors:
  "length (kroneckerProductVectors vs) = prod_list (map length vs)"
  by (simp add: kroneckerProductVectors_lex_product length_lex_product)

lemma length_power_vector [simp]: "length (power_vector xi d) = Suc d"
  by (simp add: power_vector_def)

lemma length_derivative_power_vector [simp]: "length (derivative_power_vector xi d) = Suc d"
  by (simp add: derivative_power_vector_def)

subsection \<open>Models that satisfy the invariant\<close>

lemma factor_le_prod_list:
  fixes ns :: "nat list"
  assumes "n \<in> set ns" and "\<forall>m\<in>set ns. 0 < m"
  shows "n \<le> prod_list ns"
proof -
  have "n dvd prod_list ns" using assms(1) by (rule prod_list_dvd)
  moreover have "0 < prod_list ns" using assms(2) by (induction ns) simp_all
  ultimately show ?thesis by (rule dvd_imp_le)
qed

lemma invariant_degree_bound:
  assumes "invariant p" and "deg \<in> set (degrees p)"
  shows "deg \<noteq> - 1"
proof
  assume "deg = - 1"
  then have "Suc (unat deg) = 2 ^ 32"
    by (simp add: unsigned_minus_1_eq_mask mask_eq_exp_minus_1)
  moreover have "Suc (unat deg) \<le> (\<Prod>deg\<leftarrow>degrees p. Suc (unat deg))"
    using assms(2) by (intro factor_le_prod_list) auto
  moreover have "unat (computeNumBasisFunctions (degrees p)) < 2 ^ 32"
    using unsigned_less [of "computeNumBasisFunctions (degrees p)", where 'a = nat] by simp
  ultimately show False using assms(1) by (simp add: invariant_def)
qed

lemma length_power_vectors [simp]:
  "length x = length degs \<Longrightarrow> length (power_vectors x degs) = length degs"
  by (simp add: power_vectors_def)

lemma nth_power_vectors:
  "length x = length degs \<Longrightarrow> k < length degs \<Longrightarrow>
    power_vectors x degs ! k = power_vector (x ! k) (unat (degs ! k))"
  by (simp add: power_vectors_def)

lemma map_length_power_vectors:
  "length x = length degs \<Longrightarrow>
    map length (power_vectors x degs) = map (\<lambda>deg. Suc (unat deg)) degs"
  by (rule nth_equalityI) (simp_all add: nth_power_vectors)

lemma map_length_differentiated_power_vectors:
  "length x = length degs \<Longrightarrow>
    map length (differentiated_power_vectors x degs v) = map (\<lambda>deg. Suc (unat deg)) degs"
proof (rule nth_equalityI)
  show "length (map length (differentiated_power_vectors x degs v)) =
      length (map (\<lambda>deg. Suc (unat deg)) degs)"
    if "length x = length degs"
    using that by (simp add: differentiated_power_vectors_def)
next
  fix k
  assume l: "length x = length degs"
    and "k < length (map length (differentiated_power_vectors x degs v))"
  then have k: "k < length degs"
    by (simp add: differentiated_power_vectors_def)
  show "map length (differentiated_power_vectors x degs v) ! k =
      map (\<lambda>deg. Suc (unat deg)) degs ! k"
    using l k
    by (cases "k = v") (simp_all add: differentiated_power_vectors_def nth_power_vectors)
qed

lemma map_plain_powers:
  "length x = length (degrees p) \<Longrightarrow>
    map (plain_powers p x) [0..<length (degrees p)] = power_vectors x (degrees p)"
  by (rule nth_equalityI) (simp_all add: nth_power_vectors plain_powers_def)

lemma map_diff_powers:
  "length x = length (degrees p) \<Longrightarrow>
    map (diff_powers p x v) [0..<length (degrees p)] =
      differentiated_power_vectors x (degrees p) v"
  by (rule nth_equalityI)
    (simp_all add: differentiated_power_vectors_def nth_power_vectors nth_list_update
      plain_powers_def diff_powers_def)

lemma invariant_getNumCoefficients:
  assumes "invariant p"
  shows "unat (getNumCoefficients p) = (\<Prod>deg\<leftarrow>degrees p. Suc (unat deg))"
proof -
  have "length (coefficients p) = unat (computeNumBasisFunctions (degrees p))"
    using assms by (simp add: invariant_def)
  then have "getNumCoefficients p = computeNumBasisFunctions (degrees p)"
    by (simp add: getNumCoefficients_def)
  then show ?thesis using assms by (simp add: invariant_def)
qed

lemma invariant_loops:
  assumes "invariant p" and "length x = length (degrees p)"
  shows "powers_loop p x 0 [] = Inr (power_vectors x (degrees p))"
    and "diff_powers_loop p x var 0 [] =
      Inr (differentiated_power_vectors x (degrees p) (unat var))"
proof -
  have n: "unat (numVariables p) = length (degrees p)"
    using assms(1) by (simp add: invariant_def)
  have d: "\<forall>k<unat (numVariables p). degrees p ! k \<noteq> - 1"
    using assms(1) n by (metis invariant_degree_bound nth_mem)
  show "powers_loop p x 0 [] = Inr (power_vectors x (degrees p))"
    using powers_loop_map [of p x 0 "[]"] d n assms(2) by (simp add: map_plain_powers)
  show "diff_powers_loop p x var 0 [] =
      Inr (differentiated_power_vectors x (degrees p) (unat var))"
    using diff_powers_loop_map [of p x var 0 "[]"] d n assms(2) by (simp add: map_diff_powers)
qed

lemma evalBasisFunctions_invariant:
  assumes "invariant p" and "length x = length (degrees p)"
  shows "evalBasisFunctions p x = Inr (kroneckerProductVectors (power_vectors x (degrees p)))"
  using assms
  by (simp add: evalBasisFunctions_def invariant_loops check_rows_def
      length_kroneckerProductVectors map_length_power_vectors invariant_getNumCoefficients)

lemma evalDifferentiatedMonomials_invariant:
  assumes "invariant p" and "length x = length (degrees p)" and "var < numVariables p"
  shows "evalDifferentiatedMonomials p x var =
    Inr (kroneckerProductVectors (differentiated_power_vectors x (degrees p) (unat var)))"
  using assms
  by (simp add: evalDifferentiatedMonomials_def invariant_loops check_rows_def
      length_kroneckerProductVectors map_length_differentiated_power_vectors
      invariant_getNumCoefficients linorder_not_le [symmetric])

subsection \<open>Models whose sizes fit\<close>

lemma sized_loops:
  assumes "unat (numVariables p) = length (degrees p)" and "length x = length (degrees p)"
    and "\<forall>deg\<in>set (degrees p). deg \<noteq> - 1"
  shows "powers_loop p x 0 [] = Inr (power_vectors x (degrees p))"
    and "diff_powers_loop p x var 0 [] =
      Inr (differentiated_power_vectors x (degrees p) (unat var))"
proof -
  have d: "\<forall>k<unat (numVariables p). degrees p ! k \<noteq> - 1"
    using assms(1,3) by simp
  show "powers_loop p x 0 [] = Inr (power_vectors x (degrees p))"
    using powers_loop_map [of p x 0 "[]"] d assms(1,2) by (simp add: map_plain_powers)
  show "diff_powers_loop p x var 0 [] =
      Inr (differentiated_power_vectors x (degrees p) (unat var))"
    using diff_powers_loop_map [of p x var 0 "[]"] d assms(1,2) by (simp add: map_diff_powers)
qed

lemma evalBasisFunctions_sized:
  assumes "unat (numVariables p) = length (degrees p)" and "length x = length (degrees p)"
    and "\<forall>deg\<in>set (degrees p). deg \<noteq> - 1"
  shows "evalBasisFunctions p x =
    (if (\<Prod>deg\<leftarrow>degrees p. Suc (unat deg)) \<noteq> unat (getNumCoefficients p)
     then Inl InvariantViolation
     else Inr (kroneckerProductVectors (power_vectors x (degrees p))))"
  using assms
  by (simp add: evalBasisFunctions_def sized_loops check_rows_def
      length_kroneckerProductVectors map_length_power_vectors)

lemma Polynomial_degrees_invariant:
  assumes "length degs < 2 ^ 32" and "(\<Prod>deg\<leftarrow>degs. Suc (unat deg)) < 2 ^ 32"
  shows "invariant (Polynomial_degrees degs)"
  using assms
  by (simp add: invariant_def Polynomial_degrees_def unat_computeNumBasisFunctions
      unat_of_nat)

text \<open>
  A degree spec with \<open>2 ^ 32\<close> entries or more is truncated by the conversion of
  \<^verbatim>\<open>degrees.size()\<close> to \<^verbatim>\<open>unsigned int\<close>: the loops then visit fewer dimensions
  than the basis count was computed from.
\<close>

lemma truncated_dimension_count:
  assumes "N mod 2 ^ 32 = 0" and "0 < N"
  shows "numVariables (Polynomial_degrees (replicate N 0 @ [1])) = 1"
    and "length (coefficients (Polynomial_degrees (replicate N 0 @ [1]))) = 2"
    and "evalBasisFunctions (Polynomial_degrees (replicate N 0 @ [1])) [0] =
      Inl InvariantViolation"
proof -
  let ?degs = "replicate N 0 @ [1 :: uint]"
  let ?p = "Polynomial_degrees ?degs"
  have "unat (of_nat (Suc N) :: uint) = Suc N mod 2 ^ 32"
    by (simp only: unat_of_nat) simp
  also have "\<dots> = 1"
    using assms(1) by (simp add: mod_Suc)
  finally have "of_nat (Suc N) = (1 :: uint)"
    by (metis unat_1 word_unat_eq_iff)
  then show n: "numVariables ?p = 1"
    by (simp add: Polynomial_degrees_def)
  have c: "computeNumBasisFunctions ?degs = 2"
    by (simp add: computeNumBasisFunctions_def numMonomials_loop_prod)
  then show "length (coefficients ?p) = 2"
    by (simp add: Polynomial_degrees_def)
  have g: "getNumCoefficients ?p = 2"
    by (simp add: getNumCoefficients_def Polynomial_degrees_def c)
  have d: "degrees ?p ! 0 = 0"
    using assms(2) by (simp add: Polynomial_degrees_def nth_append)
  have "powers_loop ?p [0] 0 [] = Inr ([] @ map (plain_powers ?p [0]) [unat (0::uint)..<unat (numVariables ?p)])"
    using d n by (intro powers_loop_map) (simp_all add: Polynomial_degrees_def)
  then have "powers_loop ?p [0] 0 [] = Inr [power_vector 0 0]"
    using d n by (simp add: plain_powers_def)
  then show "evalBasisFunctions ?p [0] = Inl InvariantViolation"
    by (simp add: evalBasisFunctions_def check_rows_def g length_kroneckerProductVectors)
qed

subsection \<open>The order of the basis functions\<close>

lemma monomial_Cons: "monomial (xi # x) (j # js) = xi ^ j * monomial x js"
  by (simp add: monomial_def)

lemma lex_product_power_vectors:
  "length x = length degs \<Longrightarrow>
    lex_product (power_vectors x degs) = map (monomial x) (multi_indices degs)"
proof (induction x degs rule: list_induct2)
  case Nil
  show ?case by (simp add: power_vectors_def multi_indices_def monomial_def)
next
  case (Cons xi x deg degs)
  have "lex_product (power_vectors (xi # x) (deg # degs)) =
      concat (map (\<lambda>j. map (\<lambda>b. xi ^ j * b) (lex_product (power_vectors x degs)))
        [0..<Suc (unat deg)])"
    by (simp add: power_vectors_def power_vector_def comp_def del: upt_Suc)
  also have "\<dots> = concat (map (\<lambda>j. map (\<lambda>js. monomial (xi # x) (j # js)) (multi_indices degs))
        [0..<Suc (unat deg)])"
    by (simp add: Cons.IH monomial_Cons comp_def del: upt_Suc)
  also have "\<dots> = map (monomial (xi # x)) (multi_indices (deg # degs))"
    by (simp add: multi_indices_def map_concat comp_def del: upt_Suc)
  finally show ?case .
qed

lemma nth_power_vector: "j \<le> d \<Longrightarrow> power_vector xi d ! j = xi ^ j"
  unfolding power_vector_def by (simp del: upt_Suc)

lemma nth_derivative_power_vector:
  "1 \<le> j \<Longrightarrow> j \<le> d \<Longrightarrow> derivative_power_vector xi d ! j = of_nat j * xi ^ (j - 1)"
  unfolding derivative_power_vector_def by (cases j) (simp_all del: upt_Suc)

subsection \<open>Which errors the loops can raise\<close>

lemma powi_loop_not_InvalidVariable: "powi_loop x i deg j pw \<noteq> Inl InvalidVariable"
proof (induction x i deg j pw rule: powi_loop.induct)
  case (1 x i deg j pw)
  then show ?case
    by (subst powi_loop.simps)
      (auto simp: coeff_def set_coeff_def split: sum.splits if_splits)
qed

lemma diff_powi_loop_not_InvalidVariable:
  "diff_powi_loop x i deg j pw \<noteq> Inl InvalidVariable"
proof (induction x i deg j pw rule: diff_powi_loop.induct)
  case (1 x i deg j pw)
  then show ?case
    by (subst diff_powi_loop.simps)
      (auto simp: coeff_def set_coeff_def split: sum.splits if_splits)
qed

lemma diff_powers_loop_not_InvalidVariable:
  "diff_powers_loop p x var i powers \<noteq> Inl InvalidVariable"
proof (induction p x var i powers rule: diff_powers_loop.induct)
  case (1 p x var i powers)
  then show ?case
    by (subst diff_powers_loop.simps)
      (auto simp: vector_at_def powi_loop_not_InvalidVariable
        diff_powi_loop_not_InvalidVariable split: sum.splits if_splits)
qed

subsection \<open>The loops of the description\<close>

lemma equal_loop_adjacent:
  "1 \<le> i \<Longrightarrow> equal_loop degs i equal =
    Inr (equal \<and> (\<forall>k. i \<le> k \<and> k < length degs \<longrightarrow> degs ! k = degs ! (k - 1)))"
proof (induction degs i equal rule: equal_loop.induct)
  case (1 degs i equal)
  show ?case
  proof (cases "i < length degs")
    case True
    note il = this
    have split: "(\<forall>k. i \<le> k \<and> k < length degs \<longrightarrow> degs ! k = degs ! (k - 1)) =
        (degs ! i = degs ! (i - 1) \<and>
         (\<forall>k. i + 1 \<le> k \<and> k < length degs \<longrightarrow> degs ! k = degs ! (k - 1)))"
    proof (intro iffI conjI allI impI)
      fix k
      assume "degs ! i = degs ! (i - 1) \<and>
          (\<forall>k. i + 1 \<le> k \<and> k < length degs \<longrightarrow> degs ! k = degs ! (k - 1))"
        and "i \<le> k \<and> k < length degs"
      then show "degs ! k = degs ! (k - 1)"
        by (cases "k = i") simp_all
    qed (use il in simp_all)
    show ?thesis
    proof (cases equal)
      case True
      have a: "vector_at degs i = Inr (degs ! i)"
        and b: "vector_at degs (i - 1) = Inr (degs ! (i - 1))"
        using il by (simp_all add: vector_at_def)
      have "equal_loop degs (i + 1) (degs ! i = degs ! (i - 1)) =
          Inr (degs ! i = degs ! (i - 1) \<and>
            (\<forall>k. i + 1 \<le> k \<and> k < length degs \<longrightarrow> degs ! k = degs ! (k - 1)))"
        using "1.prems" by (intro "1.IH"(1) [OF il True a b]) simp
      then show ?thesis
        using il True a b split by (subst equal_loop.simps) simp
    next
      case False
      have "equal_loop degs (i + 1) False = Inr False"
        using "1.prems" "1.IH"(2) [OF il False] by simp
      then show ?thesis
        using il False by (subst equal_loop.simps) simp
    qed
  next
    case False
    then show ?thesis
      by (subst equal_loop.simps) auto
  qed
qed

lemma adjacent_equal_iff:
  assumes "degs \<noteq> []"
  shows "(\<forall>k. 1 \<le> k \<and> k < length degs \<longrightarrow> degs ! k = degs ! (k - 1)) =
    (\<forall>d\<in>set degs. d = hd degs)"
proof
  assume adj: "\<forall>k. 1 \<le> k \<and> k < length degs \<longrightarrow> degs ! k = degs ! (k - 1)"
  have n: "k < length degs \<Longrightarrow> degs ! k = degs ! 0" for k
  proof (induction k)
    case 0
    show ?case by simp
  next
    case (Suc k)
    then show ?case using adj [rule_format, of "Suc k"] by simp
  qed
  show "\<forall>d\<in>set degs. d = hd degs"
    by (metis n assms hd_conv_nth in_set_conv_nth)
next
  assume "\<forall>d\<in>set degs. d = hd degs"
  then have "k < length degs \<Longrightarrow> degs ! k = hd degs" for k
    by simp
  then show "\<forall>k. 1 \<le> k \<and> k < length degs \<longrightarrow> degs ! k = degs ! (k - 1)"
    by (metis less_imp_diff_less)
qed

lemma list_loop_comma_join:
  "i \<le> length degs \<Longrightarrow> list_loop degs i description =
    Inr (description @ comma_join (map to_string (drop i degs)))"
proof (induction degs i description rule: list_loop.induct)
  case (1 degs i description)
  show ?case
  proof (cases "i < length degs")
    case True
    note il = this
    have a: "vector_at degs i = Inr (degs ! i)"
      using il by (simp add: vector_at_def)
    have d: "drop i degs = degs ! i # drop (Suc i) degs"
      using il by (simp add: Cons_nth_drop_Suc)
    let ?next = "if i + 1 < length degs then description @ to_string (degs ! i) @ '', ''
                 else description @ to_string (degs ! i)"
    have "list_loop degs (i + 1) ?next =
        Inr (?next @ comma_join (map to_string (drop (i + 1) degs)))"
      using il by (intro "1.IH" [OF il a]) simp
    moreover have "?next @ comma_join (map to_string (drop (i + 1) degs)) =
        description @ comma_join (map to_string (drop i degs))"
    proof (cases "i + 1 < length degs")
      case True
      then have "drop (Suc i) degs = degs ! Suc i # drop (Suc (Suc i)) degs"
        by (simp add: Cons_nth_drop_Suc)
      then show ?thesis using True d by simp
    next
      case False
      then show ?thesis using d by simp
    qed
    ultimately show ?thesis
      using il a by (subst list_loop.simps) simp
  next
    case False
    then show ?thesis
      using "1.prems" by (subst list_loop.simps) simp
  qed
qed

lemma equal_loop_all_equal:
  assumes "degs \<noteq> []"
  shows "equal_loop degs 1 True = Inr (\<forall>d\<in>set degs. d = hd degs)"
proof -
  have "equal_loop degs 1 True =
      Inr (True \<and> (\<forall>k. 1 \<le> k \<and> k < length degs \<longrightarrow> degs ! k = degs ! (k - 1)))"
    by (rule equal_loop_adjacent) simp
  then show ?thesis
    by (simp only: adjacent_equal_iff [OF assms] simp_thms)
qed

lemma getDescription_equal:
  assumes "degrees p \<noteq> []" and "\<forall>d\<in>set (degrees p). d = D"
  shows "getDescription p = Inr (''PolynomialApproximant of degree '' @ to_string D)"
proof -
  have h: "hd (degrees p) = D"
    using assms by simp
  then have "equal_loop (degrees p) 1 True = Inr True"
    using assms by (simp only: equal_loop_all_equal [OF assms(1)]) simp
  moreover have "vector_at (degrees p) 0 = Inr D"
    using assms(1) h by (simp add: vector_at_def hd_conv_nth)
  ultimately show ?thesis
    unfolding getDescription_def by simp
qed

lemma getDescription_unequal:
  assumes "\<not> (\<exists>D. \<forall>d\<in>set (degrees p). d = D)"
  shows "getDescription p =
    Inr (''PolynomialApproximant of degrees ('' @ comma_join (map to_string (degrees p)) @ '')'')"
proof -
  from assms have n: "degrees p \<noteq> []"
    by auto
  from assms have "\<not> (\<forall>d\<in>set (degrees p). d = hd (degrees p))"
    by blast
  then have "equal_loop (degrees p) 1 True = Inr False"
    by (simp only: equal_loop_all_equal [OF n])
  moreover have "list_loop (degrees p) 0 description =
      Inr (description @ comma_join (map to_string (degrees p)))" for description
    by (simp add: list_loop_comma_join)
  ultimately show ?thesis
    unfolding getDescription_def by simp
qed

subsection \<open>The loops end\<close>

text \<open>
  The inner loops could only run forever on a vector with \<open>2 ^ 32\<close> entries or more.
  The vectors they are given have \<^verbatim>\<open>deg+1\<close> entries, an \<^verbatim>\<open>unsigned int\<close>: no call
  of the evaluation functions ends in \<open>NonTermination\<close>.
\<close>

lemma powi_loop_ends:
  "length pw < 2 ^ 32 \<Longrightarrow> powi_loop x i deg j pw \<noteq> Inl NonTermination"
proof (induction x i deg j pw rule: powi_loop.induct)
  case (1 x i deg j pw)
  have "unat j < length pw \<Longrightarrow> j \<noteq> - 1"
    using "1.prems" by (auto simp: unsigned_minus_1_eq_mask mask_eq_exp_minus_1)
  with 1 show ?case
    by (subst powi_loop.simps)
      (auto simp: coeff_def set_coeff_def split: sum.splits if_splits)
qed

lemma diff_powi_loop_ends:
  "length pw < 2 ^ 32 \<Longrightarrow> diff_powi_loop x i deg j pw \<noteq> Inl NonTermination"
proof (induction x i deg j pw rule: diff_powi_loop.induct)
  case (1 x i deg j pw)
  have "unat j < length pw \<Longrightarrow> j \<noteq> - 1"
    using "1.prems" by (auto simp: unsigned_minus_1_eq_mask mask_eq_exp_minus_1)
  with 1 show ?case
    by (subst diff_powi_loop.simps)
      (auto simp: coeff_def set_coeff_def split: sum.splits if_splits)
qed

lemma length_Zero_unat: "length (Zero (unat (w :: uint))) < 2 ^ 32"
  using unsigned_less [of w, where 'a = nat] by (simp add: Zero_def)

lemma powi_loop_Zero_ends:
  "powi_loop x i deg j (Zero (unat (w :: uint))) \<noteq> Inl NonTermination"
  "diff_powi_loop x i deg j (Zero (unat (w :: uint))) \<noteq> Inl NonTermination"
  by (rule powi_loop_ends diff_powi_loop_ends, rule length_Zero_unat)+

lemma powers_loop_ends: "powers_loop p x i powers \<noteq> Inl NonTermination"
proof (induction p x i powers rule: powers_loop.induct)
  case (1 p x i powers)
  then show ?case
    by (subst powers_loop.simps)
      (auto simp: vector_at_def powi_loop_Zero_ends split: sum.splits if_splits)
qed

lemma diff_powers_loop_ends: "diff_powers_loop p x var i powers \<noteq> Inl NonTermination"
proof (induction p x var i powers rule: diff_powers_loop.induct)
  case (1 p x var i powers)
  then show ?case
    by (subst diff_powers_loop.simps)
      (auto simp: vector_at_def powi_loop_Zero_ends split: sum.splits if_splits)
qed

lemma evaluation_ends:
  "evalBasisFunctions p x \<noteq> Inl NonTermination"
  "evalDifferentiatedMonomials p x var \<noteq> Inl NonTermination"
  by (auto simp: evalBasisFunctions_def evalDifferentiatedMonomials_def check_rows_def
      powers_loop_ends diff_powers_loop_ends split: sum.splits if_splits)

lemma jac_loop_ends: "jac_loop p x var jac \<noteq> Inl NonTermination"
proof (induction p x var jac rule: jac_loop.induct)
  case (1 p x var jac)
  then show ?case
    by (subst jac_loop.simps)
      (auto simp: evaluation_ends set_block_column_def split: sum.splits if_splits)
qed

lemma evalBasisFunctionsJacobian_ends: "evalBasisFunctionsJacobian p x \<noteq> Inl NonTermination"
  by (simp add: evalBasisFunctionsJacobian_def jac_loop_ends)

subsection \<open>What the length check catches\<close>

text \<open>
  A degree of \<open>2 ^ 32 - 1\<close> makes \<^verbatim>\<open>deg+1\<close> wrap to 0: the power vector is empty
  and the first write is out of bounds.
\<close>

lemma maximal_degree_fails:
  "length (coefficients (Polynomial_uniform 1 (- 1))) = 0 \<and>
   evalBasisFunctions (Polynomial_uniform 1 (- 1)) [0] = Inl EigenAssertion"
  by code_simp

lemma degrees_fit:
  fixes degs :: "uint list"
  assumes "(\<Prod>deg\<leftarrow>degs. Suc (unat deg)) < 2 ^ 32" and "deg \<in> set degs"
  shows "deg \<noteq> - 1"
proof
  assume "deg = - 1"
  then have "Suc (unat deg) = 2 ^ 32"
    by (simp add: unsigned_minus_1_eq_mask mask_eq_exp_minus_1)
  moreover have "Suc (unat deg) \<le> (\<Prod>deg\<leftarrow>degs. Suc (unat deg))"
    using assms(2) by (intro factor_le_prod_list) auto
  ultimately show False using assms(1) by simp
qed

lemma mismatch_is_raised:
  assumes "length degs < 2 ^ 32" and "(\<Prod>deg\<leftarrow>degs. Suc (unat deg)) < 2 ^ 32"
    and "length coeffs < 2 ^ 32" and "length coeffs \<noteq> (\<Prod>deg\<leftarrow>degs. Suc (unat deg))"
    and "length x = length degs"
  shows "evalBasisFunctions (Polynomial_degrees_coefficients degs coeffs) x =
    Inl InvariantViolation"
proof -
  let ?p = "Polynomial_degrees_coefficients degs coeffs"
  have d: "degrees ?p = degs" and c: "coefficients ?p = coeffs"
    and n: "unat (numVariables ?p) = length degs"
    using assms(1) by (simp_all add: Polynomial_degrees_coefficients_def unat_of_nat)
  have g: "unat (getNumCoefficients ?p) = length coeffs"
    using assms(3) by (simp add: getNumCoefficients_def c unat_of_nat)
  have "\<forall>deg\<in>set (degrees ?p). deg \<noteq> - 1"
    unfolding d using degrees_fit [OF assms(2)] by blast
  then show ?thesis
    using assms(4,5) by (subst evalBasisFunctions_sized) (simp_all add: d n g)
qed

subsection \<open>The loops in the arithmetic of double\<close>







subsection \<open>Finite and zero products\<close>





lemma kroneckerProduct_ieee_Cons:
  "kroneckerProduct_ieee (a # as) b =
    map (\<lambda>bj. multiply a bj) b @ kroneckerProduct_ieee as b"
  by (simp add: kroneckerProduct_ieee_def)













subsection \<open>The Jacobian in the arithmetic of double\<close>

lemma length_power_vector_ieee [simp]: "length (power_vector_ieee xi d) = Suc d"
  by (simp add: power_vector_ieee_def)

lemma length_derivative_power_vector_ieee [simp]:
  "length (derivative_power_vector_ieee xi d) = Suc d"
  by (simp add: derivative_power_vector_ieee_def)

lemma length_diff_powers_ieee [simp]:
  "length (diff_powers_ieee p x v k) = Suc (unat (degrees p ! k))"
  by (simp add: diff_powers_ieee_def plain_powers_ieee_def)

lemma length_plain_powers_ieee [simp]:
  "length (plain_powers_ieee p x k) = Suc (unat (degrees p ! k))"
  by (simp add: plain_powers_ieee_def)











subsection \<open>Two evaluated points\<close>







section \<open>The claims\<close>

subsection \<open>C1: the constructors establish the length invariant\<close>

text \<open>
  C1, as stated, for every degree spec: the model built from an explicit degree spec
  has \<^verbatim>\<open>computeNumBasisFunctions(degrees)\<close> coefficients, and
  \<^verbatim>\<open>evalBasisFunctions\<close> returns a vector of that length for every point of length
  \<^verbatim>\<open>numVariables\<close>, without an error. This fails where the basis count overflows:
  for the degrees \<open>[65535, 65535]\<close> the count \<open>65536 * 65536\<close> wraps to 0, the
  model has no coefficients, and the evaluation of the \<open>2 ^ 32\<close> monomials ends in
  the length check.
\<close>

theorem overflowing_degrees_counterexample:
  "length [1, 1 :: real] = unat (numVariables (Polynomial_degrees [65535, 65535])) \<and>
   length (coefficients (Polynomial_degrees [65535, 65535])) =
     unat (computeNumBasisFunctions [65535, 65535]) \<and>
   evalBasisFunctions (Polynomial_degrees [65535, 65535]) [1, 1] = Inl InvariantViolation"
proof -
  let ?p = "Polynomial_degrees [65535, 65535]"
  have c: "computeNumBasisFunctions [65535, 65535] = 0"
    by (simp add: computeNumBasisFunctions_def)
  have d: "degrees ?p = [65535, 65535]" and n: "numVariables ?p = 2"
    and g: "getNumCoefficients ?p = 0"
    by (simp_all add: Polynomial_degrees_def getNumCoefficients_def c)
  have "evalBasisFunctions ?p [1, 1] = Inl InvariantViolation"
    by (subst evalBasisFunctions_sized) (simp_all add: d n g)
  then show ?thesis
    by (simp add: n c Polynomial_degrees_def)
qed

text \<open>
  C1, amended: for every model constructed from an explicit degree spec, or from a
  uniform degree applied to \<open>n\<close> variables, with fewer than \<open>2 ^ 32\<close> dimensions
  and a product of all \<open>degree + 1\<close> below \<open>2 ^ 32\<close>, the invariant of section 3
  holds, the coefficient vector consists of \<^verbatim>\<open>computeNumBasisFunctions(degrees)\<close>
  zeros, and for every point \<open>x\<close> of length \<^verbatim>\<open>numVariables\<close> the call
  \<^verbatim>\<open>evalBasisFunctions(x)\<close> returns a vector of that length.
\<close>

theorem constructed_model_basis_length:
  assumes "p = Polynomial_degrees degs \<or>
      (degs = replicate (unat n) degree \<and> p = Polynomial_uniform n degree)"
    and "length degs < 2 ^ 32" and "(\<Prod>deg\<leftarrow>degs. Suc (unat deg)) < 2 ^ 32"
    and "length x = unat (numVariables p)"
  shows "invariant p \<and> degrees p = degs \<and>
    coefficients p = Zero (unat (computeNumBasisFunctions degs)) \<and>
    length (coefficients p) = unat (computeNumBasisFunctions degs) \<and>
    (\<exists>b. evalBasisFunctions p x = Inr b \<and>
         length b = unat (computeNumBasisFunctions degs))"
proof -
  from assms(1) have p: "p = Polynomial_degrees degs"
    by (auto simp: Polynomial_uniform_def)
  then have d: "degrees p = degs"
    and c: "coefficients p = Zero (unat (computeNumBasisFunctions degs))"
    by (simp_all add: Polynomial_degrees_def Zero_def)
  have i: "invariant p"
    unfolding p using assms(2,3) by (rule Polynomial_degrees_invariant)
  then have l: "length x = length (degrees p)"
    using assms(4) by (simp add: invariant_def)
  have "evalBasisFunctions p x = Inr (kroneckerProductVectors (power_vectors x (degrees p)))"
    using i l by (rule evalBasisFunctions_invariant)
  moreover have "length (kroneckerProductVectors (power_vectors x (degrees p))) =
      unat (computeNumBasisFunctions (degrees p))"
    using i l by (simp add: length_kroneckerProductVectors map_length_power_vectors invariant_def)
  ultimately show ?thesis
    using i d c by (simp add: Zero_def)
qed

theorem constructed_model_basis_length_witness:
  "length [1, 1 :: uint] < 2 ^ 32 \<and> (\<Prod>deg\<leftarrow>[1, 1 :: uint]. Suc (unat deg)) < 2 ^ 32 \<and>
   length [2, 5 :: real] = unat (numVariables (Polynomial_degrees [1, 1])) \<and>
   length (coefficients (Polynomial_degrees [1, 1])) = 4 \<and>
   (\<exists>b. evalBasisFunctions (Polynomial_degrees [1, 1]) [2, 5] = Inr b \<and> length b = 4) \<and>
   length [2, 5 :: real] = unat (numVariables (Polynomial_uniform 2 1)) \<and>
   length (coefficients (Polynomial_uniform 2 1)) = 4 \<and>
   (\<exists>b. evalBasisFunctions (Polynomial_uniform 2 1) [2, 5] = Inr b \<and> length b = 4)"
proof -
  have c: "computeNumBasisFunctions [1, 1] = 4"
    by (simp add: computeNumBasisFunctions_def)
  have n: "numVariables (Polynomial_degrees [1, 1]) = 2"
    by (simp add: Polynomial_degrees_def)
  have "unat (2 :: uint) = Suc (Suc 0)"
    by simp
  then have r: "replicate (unat (2 :: uint)) (1 :: uint) = [1, 1]"
    by (simp only: replicate.simps)
  have u: "Polynomial_uniform 2 1 = Polynomial_degrees [1, 1]"
    by (simp only: Polynomial_uniform_def r)
  have "length (coefficients (Polynomial_degrees [1, 1])) = 4 \<and>
      (\<exists>b. evalBasisFunctions (Polynomial_degrees [1, 1]) [2, 5] = Inr b \<and> length b = 4)"
    using constructed_model_basis_length
      [of "Polynomial_degrees [1, 1]" "[1, 1]" 2 1 "[2, 5]"]
    by (simp add: c n Zero_def)
  moreover have "length (coefficients (Polynomial_uniform 2 1)) = 4 \<and>
      (\<exists>b. evalBasisFunctions (Polynomial_uniform 2 1) [2, 5] = Inr b \<and> length b = 4)"
    using constructed_model_basis_length
      [of "Polynomial_uniform 2 1" "[1, 1]" 2 1 "[2, 5]"]
    by (simp add: c n r u Zero_def)
  ultimately show ?thesis
    by (simp add: n u)
qed

subsection \<open>C2: the basis count is the product of all \<open>degree + 1\<close>\<close>

text \<open>
  C2. For every degree spec, \<^verbatim>\<open>computeNumBasisFunctions(degrees)\<close> is the product
  over all entries of \<open>degree + 1\<close>, accumulated from 1 by one multiplication per
  entry, and it is 1 for the empty spec. The product is the one of \<^verbatim>\<open>unsigned int\<close>:
  read as a natural number, it is the product of the numbers \<open>degree + 1\<close>
  modulo \<open>2 ^ 32\<close>.
\<close>

theorem computeNumBasisFunctions_product:
  "computeNumBasisFunctions degs = (\<Prod>deg\<leftarrow>degs. deg + 1) \<and>
   computeNumBasisFunctions degs = foldl (\<lambda>numMonomials deg. numMonomials * (deg + 1)) 1 degs \<and>
   unat (computeNumBasisFunctions degs) = (\<Prod>deg\<leftarrow>degs. Suc (unat deg)) mod 2 ^ 32 \<and>
   computeNumBasisFunctions [] = 1"
proof -
  have f: "numMonomials_loop acc degs =
      foldl (\<lambda>numMonomials deg. numMonomials * (deg + 1)) acc degs" for acc
    by (induction degs arbitrary: acc) simp_all
  have "computeNumBasisFunctions degs = (\<Prod>deg\<leftarrow>degs. deg + 1)"
    by (simp add: computeNumBasisFunctions_def numMonomials_loop_prod)
  moreover have "computeNumBasisFunctions degs =
      foldl (\<lambda>numMonomials deg. numMonomials * (deg + 1)) 1 degs"
    by (simp only: computeNumBasisFunctions_def f)
  moreover have "unat (computeNumBasisFunctions degs) =
      (\<Prod>deg\<leftarrow>degs. Suc (unat deg)) mod 2 ^ 32"
    by (rule unat_computeNumBasisFunctions)
  moreover have "computeNumBasisFunctions [] = 1"
    by (simp add: computeNumBasisFunctions_def)
  ultimately show ?thesis by blast
qed

subsection \<open>C3: the basis vector is the Kronecker product, last dimension fastest\<close>

text \<open>
  C3. The basis vector is the Kronecker product of the per-dimension power vectors in
  dimension order; its entries are the monomials \<open>x\<^sub>0 ^ j\<^sub>0 * x\<^sub>1 ^ j\<^sub>1 * \<dots>\<close> listed in
  the lexicographic order of the exponent tuples, the exponent of the last dimension
  varying fastest. For degrees \<open>[1, 1]\<close> and \<open>x = [2, 5]\<close> the basis vector is
  \<open>[1, 5, 2, 10]\<close> and the Jacobian has the columns \<open>[0, 0, 1, 5]\<close> and
  \<open>[0, 1, 0, 2]\<close>.
\<close>

theorem basis_kronecker_order:
  assumes "invariant p" and "length x = length (degrees p)"
  shows "evalBasisFunctions p x = Inr (kroneckerProductVectors (power_vectors x (degrees p))) \<and>
    evalBasisFunctions p x = Inr (map (monomial x) (multi_indices (degrees p))) \<and>
    multi_indices [1, 1] = [[0, 0], [0, 1], [1, 0], [1, 1]] \<and>
    evalBasisFunctions (Polynomial_degrees [1, 1]) [2, 5] = Inr [1, 5, 2, 10] \<and>
    evalBasisFunctionsJacobian (Polynomial_degrees [1, 1]) [2, 5] =
      Inr \<lparr> rows = 4, columns = [[0, 0, 1, 5], [0, 1, 0, 2]] \<rparr>"
proof -
  have b: "evalBasisFunctions p x = Inr (kroneckerProductVectors (power_vectors x (degrees p)))"
    using assms by (rule evalBasisFunctions_invariant)
  moreover have "kroneckerProductVectors (power_vectors x (degrees p)) =
      map (monomial x) (multi_indices (degrees p))"
    using assms(2) by (simp add: kroneckerProductVectors_lex_product lex_product_power_vectors)
  moreover have "multi_indices [1, 1] = [[0, 0], [0, 1], [1, 0], [1, 1]]"
    by code_simp
  moreover have "evalBasisFunctions (Polynomial_degrees [1, 1]) [2, 5] = Inr [1, 5, 2, 10]"
    by code_simp
  moreover have "evalBasisFunctionsJacobian (Polynomial_degrees [1, 1]) [2, 5] =
      Inr \<lparr> rows = 4, columns = [[0, 0, 1, 5], [0, 1, 0, 2]] \<rparr>"
    by code_simp
  ultimately show ?thesis by simp
qed

theorem basis_kronecker_order_witness:
  "invariant (Polynomial_degrees [2, 1]) \<and>
   length [3, 7 :: real] = length (degrees (Polynomial_degrees [2, 1])) \<and>
   evalBasisFunctions (Polynomial_degrees [2, 1]) [3, 7] =
     Inr (map (monomial [3, 7]) [[0, 0], [0, 1], [1, 0], [1, 1], [2, 0], [2, 1]])"
proof -
  have i: "invariant (Polynomial_degrees [2, 1])"
    by code_simp
  have l: "length [3, 7 :: real] = length (degrees (Polynomial_degrees [2, 1]))"
    by (simp add: Polynomial_degrees_def)
  have m: "multi_indices (degrees (Polynomial_degrees [2, 1])) =
      [[0, 0], [0, 1], [1, 0], [1, 1], [2, 0], [2, 1]]"
    by code_simp
  show ?thesis
    using basis_kronecker_order [OF i l] i l unfolding m by blast
qed

subsection \<open>C4: the entries of a power vector\<close>

text \<open>
  C4. For each dimension \<open>i\<close> with degree \<open>d\<close>, the loop of
  \<^verbatim>\<open>evalBasisFunctions\<close> builds a power vector of length \<open>d + 1\<close> whose entry \<open>j\<close>
  is \<open>x\<^sub>i ^ j\<close>; entry 0 is 1 also when \<open>x\<^sub>i = 0\<close>. For degrees \<open>[2]\<close> and
  \<open>x = [3]\<close> the basis vector is \<open>[1, 3, 9]\<close>.
\<close>

theorem power_vector_entries:
  assumes "invariant p" and "length x = length (degrees p)"
  shows "(\<exists>powers. powers_loop p x 0 [] = Inr powers \<and> length powers = length (degrees p) \<and>
      (\<forall>i<length (degrees p).
         length (powers ! i) = Suc (unat (degrees p ! i)) \<and>
         (\<forall>j\<le>unat (degrees p ! i). powers ! i ! j = (x ! i) ^ j) \<and>
         powers ! i ! 0 = 1)) \<and>
    evalBasisFunctions (Polynomial_degrees [2]) [3] = Inr [1, 3, 9] \<and>
    evalBasisFunctions (Polynomial_degrees [2]) [0] = Inr [1, 0, 0]"
proof -
  have "powers_loop p x 0 [] = Inr (power_vectors x (degrees p))"
    using assms by (rule invariant_loops)
  moreover have "length (power_vectors x (degrees p)) = length (degrees p)"
    using assms(2) by simp
  moreover have "length (power_vectors x (degrees p) ! i) = Suc (unat (degrees p ! i)) \<and>
      (\<forall>j\<le>unat (degrees p ! i). power_vectors x (degrees p) ! i ! j = (x ! i) ^ j) \<and>
      power_vectors x (degrees p) ! i ! 0 = 1"
    if "i < length (degrees p)" for i
    using assms(2) that by (simp add: nth_power_vectors nth_power_vector)
  moreover have "evalBasisFunctions (Polynomial_degrees [2]) [3] = Inr [1, 3, 9]"
    by code_simp
  moreover have "evalBasisFunctions (Polynomial_degrees [2]) [0] = Inr [1, 0, 0]"
    by code_simp
  ultimately show ?thesis by blast
qed

theorem power_vector_entries_witness:
  "invariant (Polynomial_degrees [2]) \<and>
   length [0 :: real] = length (degrees (Polynomial_degrees [2])) \<and>
   (\<exists>powers. powers_loop (Polynomial_degrees [2]) [0] 0 [] = Inr powers \<and>
      length (powers ! 0) = 3 \<and> powers ! 0 ! 0 = 1 \<and> powers ! 0 ! 2 = 0 ^ 2)"
proof -
  have i: "invariant (Polynomial_degrees [2])"
    by code_simp
  have l: "length [0 :: real] = length (degrees (Polynomial_degrees [2]))"
    by (simp add: Polynomial_degrees_def)
  have d: "degrees (Polynomial_degrees [2]) = [2]"
    by (simp add: Polynomial_degrees_def)
  from power_vector_entries [OF i l] obtain powers where
    "powers_loop (Polynomial_degrees [2]) [0] 0 [] = Inr powers"
    and "\<forall>i<length (degrees (Polynomial_degrees [2])).
         length (powers ! i) = Suc (unat (degrees (Polynomial_degrees [2]) ! i)) \<and>
         (\<forall>j\<le>unat (degrees (Polynomial_degrees [2]) ! i). powers ! i ! j = ([0] ! i) ^ j) \<and>
         powers ! i ! 0 = 1"
    by blast
  then show ?thesis
    using i l by (auto simp: d)
qed

subsection \<open>C5: the differentiated basis replaces one power vector by its derivative\<close>

text \<open>
  C5. For every valid dimension index \<open>v\<close> and every point \<open>x\<close>,
  \<^verbatim>\<open>evalDifferentiatedMonomials(x, v)\<close> is the same Kronecker product as
  \<^verbatim>\<open>evalBasisFunctions(x)\<close>, taken over the same list of power vectors except that
  the vector of dimension \<open>v\<close> is the derivative power vector: entry 0 is 0 and entry
  \<open>j\<close>, for \<open>1 \<le> j \<le> d\<^sub>v\<close>, is \<open>j * x\<^sub>v ^ (j - 1)\<close>. Every other dimension keeps
  its plain power vector, with entry \<open>j\<close> equal to \<open>x\<^sub>i ^ j\<close>.
\<close>

theorem differentiated_basis_construction:
  assumes "invariant p" and "length x = length (degrees p)" and "v < numVariables p"
  shows "evalBasisFunctions p x =
      Inr (kroneckerProductVectors (power_vectors x (degrees p))) \<and>
    evalDifferentiatedMonomials p x v =
      Inr (kroneckerProductVectors
        ((power_vectors x (degrees p))
           [unat v := derivative_power_vector (x ! unat v) (unat (degrees p ! unat v))])) \<and>
    length (derivative_power_vector (x ! unat v) (unat (degrees p ! unat v))) =
      Suc (unat (degrees p ! unat v)) \<and>
    derivative_power_vector (x ! unat v) (unat (degrees p ! unat v)) ! 0 = 0 \<and>
    (\<forall>j. 1 \<le> j \<and> j \<le> unat (degrees p ! unat v) \<longrightarrow>
       derivative_power_vector (x ! unat v) (unat (degrees p ! unat v)) ! j =
         of_nat j * (x ! unat v) ^ (j - 1)) \<and>
    (\<forall>i<length (degrees p). \<forall>j\<le>unat (degrees p ! i).
       power_vectors x (degrees p) ! i ! j = (x ! i) ^ j)"
proof -
  have "evalBasisFunctions p x = Inr (kroneckerProductVectors (power_vectors x (degrees p)))"
    using assms(1,2) by (rule evalBasisFunctions_invariant)
  moreover have "evalDifferentiatedMonomials p x v =
      Inr (kroneckerProductVectors
        ((power_vectors x (degrees p))
           [unat v := derivative_power_vector (x ! unat v) (unat (degrees p ! unat v))]))"
    using evalDifferentiatedMonomials_invariant [OF assms]
    by (simp only: differentiated_power_vectors_def)
  moreover have "derivative_power_vector xi d ! 0 = 0" for xi d
    by (simp add: derivative_power_vector_def)
  moreover have "power_vectors x (degrees p) ! i ! j = (x ! i) ^ j"
    if "i < length (degrees p)" and "j \<le> unat (degrees p ! i)" for i j
    using assms(2) that by (simp add: nth_power_vectors nth_power_vector)
  ultimately show ?thesis
    by (simp add: nth_derivative_power_vector)
qed

theorem differentiated_basis_construction_witness:
  "invariant (Polynomial_degrees [2, 3]) \<and>
   length [3, 5 :: real] = length (degrees (Polynomial_degrees [2, 3])) \<and>
   (1 :: uint) < numVariables (Polynomial_degrees [2, 3]) \<and>
   evalDifferentiatedMonomials (Polynomial_degrees [2, 3]) [3, 5] 1 =
     Inr (kroneckerProductVectors [power_vector 3 2, derivative_power_vector 5 3]) \<and>
   derivative_power_vector 5 3 ! 3 = 3 * 5 ^ 2"
proof -
  have i: "invariant (Polynomial_degrees [2, 3])"
    by code_simp
  have l: "length [3, 5 :: real] = length (degrees (Polynomial_degrees [2, 3]))"
    by (simp add: Polynomial_degrees_def)
  have v: "(1 :: uint) < numVariables (Polynomial_degrees [2, 3])"
    by (simp add: Polynomial_degrees_def)
  have d: "degrees (Polynomial_degrees [2, 3]) = [2, 3]"
    by (simp add: Polynomial_degrees_def)
  show ?thesis
    using differentiated_basis_construction [OF i l v] i l v
    by (simp add: d power_vectors_def)
qed

subsection \<open>C6: a zero-degree dimension\<close>




subsection \<open>C7: the invalid-variable error\<close>

text \<open>
  C7. \<^verbatim>\<open>evalDifferentiatedMonomials(x, v)\<close> raises the "invalid variable" error if and
  only if \<open>v\<close> is outside \<open>[0, numVariables)\<close>. The test is the first statement of
  the function: for an invalid \<open>v\<close> the result is this error whatever the point and
  the degrees are, also where the loops would have failed, so nothing has been computed.
  The function is a \<^verbatim>\<open>const\<close> member: it returns a result and no new state.
\<close>

theorem invalid_variable_iff:
  "(evalDifferentiatedMonomials p x v = Inl InvalidVariable) = (v \<notin> {0..<numVariables p})"
proof (cases "v < numVariables p")
  case True
  then have "evalDifferentiatedMonomials p x v \<noteq> Inl InvalidVariable"
    by (auto simp: evalDifferentiatedMonomials_def check_rows_def
        diff_powers_loop_not_InvalidVariable linorder_not_le [symmetric] split: sum.splits)
  then show ?thesis using True by simp
next
  case False
  then have "evalDifferentiatedMonomials p x v = Inl InvalidVariable"
    by (simp add: evalDifferentiatedMonomials_def linorder_not_less)
  then show ?thesis using False by simp
qed

subsection \<open>C8: the description\<close>

text \<open>
  C8, as stated: \<^verbatim>\<open>getDescription()\<close> returns "polynomial of degree D" when all
  degrees equal \<open>D\<close>, and "polynomials of degrees (d0, ..., dn)" otherwise. The
  strings of the code begin with "PolynomialApproximant of degree", and for the empty
  degree spec, where every \<open>D\<close> qualifies, the code raises an error instead.
\<close>

theorem getDescription_text_counterexample:
  "getDescription (Polynomial_degrees [2]) = Inr ''PolynomialApproximant of degree 2'' \<and>
   getDescription (Polynomial_degrees [2]) \<noteq> Inr ''polynomial of degree 2'' \<and>
   getDescription (Polynomial_degrees [1, 2]) = Inr ''PolynomialApproximant of degrees (1, 2)'' \<and>
   getDescription (Polynomial_degrees [1, 2]) \<noteq> Inr ''polynomials of degrees (1, 2)'' \<and>
   getDescription (Polynomial_degrees []) = Inl StdOutOfRange"
  by code_simp

text \<open>
  C8, amended: for every model with at least one dimension, \<^verbatim>\<open>getDescription()\<close>
  returns "PolynomialApproximant of degree D" when all per-dimension degrees equal
  \<open>D\<close>, and otherwise "PolynomialApproximant of degrees (d0, d1, ..., dn)", the
  degrees in decimal, in dimension order, separated by a comma and a space.
\<close>

theorem getDescription_text:
  "(degrees p \<noteq> [] \<and> (\<forall>d\<in>set (degrees p). d = D) \<longrightarrow>
      getDescription p = Inr (''PolynomialApproximant of degree '' @ to_string D)) \<and>
   (\<not> (\<exists>D. \<forall>d\<in>set (degrees p). d = D) \<longrightarrow>
      getDescription p =
        Inr (''PolynomialApproximant of degrees ('' @
             comma_join (map to_string (degrees p)) @ '')''))"
  using getDescription_equal [of p D] getDescription_unequal [of p] by blast

theorem getDescription_text_witness:
  "getDescription (Polynomial_degrees [2, 2, 2]) = Inr ''PolynomialApproximant of degree 2'' \<and>
   getDescription (Polynomial_degrees [12, 0, 345]) =
     Inr ''PolynomialApproximant of degrees (12, 0, 345)''"
proof -
  have a: "degrees (Polynomial_degrees [2, 2, 2]) = [2, 2, 2]"
    and b: "degrees (Polynomial_degrees [12, 0, 345]) = [12, 0, 345]"
    by (simp_all add: Polynomial_degrees_def)
  have u: "\<not> (\<exists>D. \<forall>d\<in>set [12, 0, 345 :: uint]. d = D)"
    by simp
  have t: "to_string 2 = ''2''" "to_string 12 = ''12''" "to_string 0 = ''0''"
    "to_string 345 = ''345''"
    by code_simp+
  have "getDescription (Polynomial_degrees [2, 2, 2]) =
      Inr (''PolynomialApproximant of degree '' @ to_string 2)"
    using getDescription_text [of "Polynomial_degrees [2, 2, 2]" 2] by (simp add: a)
  moreover have "getDescription (Polynomial_degrees [12, 0, 345]) =
      Inr (''PolynomialApproximant of degrees ('' @
           comma_join (map to_string [12, 0, 345]) @ '')'')"
    using getDescription_text [of "Polynomial_degrees [12, 0, 345]" 0] u unfolding b by blast
  ultimately show ?thesis
    by (simp add: t)
qed

subsection \<open>C9: the constructor with explicit coefficients does not validate\<close>

text \<open>
  C9. The constructor from a degree spec and a coefficient vector stores both as they
  are. For some degrees and a coefficient vector whose length differs from the basis
  count (degrees \<open>[1]\<close>, one coefficient) the construction succeeds, and the later
  call of \<^verbatim>\<open>evalBasisFunctions\<close> raises the length-mismatch error; it returns no
  vector, truncated or padded. The same holds for every mismatch between the number of
  coefficients and the product of all \<open>degree + 1\<close>, as long as the sizes are below
  \<open>2 ^ 32\<close>.
\<close>

theorem unchecked_constructor_mismatch:
  "(\<forall>degs coeffs.
      degrees (Polynomial_degrees_coefficients degs coeffs) = degs \<and>
      coefficients (Polynomial_degrees_coefficients degs coeffs) = coeffs) \<and>
   (\<exists>degs coeffs x.
      length coeffs \<noteq> unat (computeNumBasisFunctions degs) \<and>
      length x = unat (numVariables (Polynomial_degrees_coefficients degs coeffs)) \<and>
      evalBasisFunctions (Polynomial_degrees_coefficients degs coeffs) x =
        Inl InvariantViolation) \<and>
   (length degs < 2 ^ 32 \<and> (\<Prod>deg\<leftarrow>degs. Suc (unat deg)) < 2 ^ 32 \<and>
    length coeffs < 2 ^ 32 \<and> length coeffs \<noteq> (\<Prod>deg\<leftarrow>degs. Suc (unat deg)) \<and>
    length x = length degs \<longrightarrow>
      evalBasisFunctions (Polynomial_degrees_coefficients degs coeffs) x =
        Inl InvariantViolation)"
proof -
  have "length [0 :: real] \<noteq> unat (computeNumBasisFunctions [1])"
    by (simp add: computeNumBasisFunctions_def)
  moreover have "length [3 :: real] =
      unat (numVariables (Polynomial_degrees_coefficients [1] [0]))"
    by (simp add: Polynomial_degrees_coefficients_def)
  moreover have "evalBasisFunctions (Polynomial_degrees_coefficients [1] [0]) [3] =
      Inl InvariantViolation"
    by code_simp
  ultimately have "\<exists>degs coeffs x.
      length coeffs \<noteq> unat (computeNumBasisFunctions degs) \<and>
      length x = unat (numVariables (Polynomial_degrees_coefficients degs coeffs)) \<and>
      evalBasisFunctions (Polynomial_degrees_coefficients degs coeffs) x =
        Inl InvariantViolation"
    by blast
  moreover have "degrees (Polynomial_degrees_coefficients ds cs) = ds \<and>
      coefficients (Polynomial_degrees_coefficients ds cs) = cs" for ds cs
    by (simp add: Polynomial_degrees_coefficients_def)
  ultimately show ?thesis
    using mismatch_is_raised [of degs coeffs x] by blast
qed

theorem unchecked_constructor_mismatch_witness:
  "length [2, 1 :: uint] < 2 ^ 32 \<and> (\<Prod>deg\<leftarrow>[2, 1 :: uint]. Suc (unat deg)) = 6 \<and>
   length [1, 1, 1, 1 :: real] < 2 ^ 32 \<and> length [1, 1, 1, 1 :: real] \<noteq> 6 \<and>
   length [3, 7 :: real] = length [2, 1 :: uint] \<and>
   evalBasisFunctions (Polynomial_degrees_coefficients [2, 1] [1, 1, 1, 1]) [3, 7] =
     Inl InvariantViolation"
  using unchecked_constructor_mismatch [of "[2, 1]" "[1, 1, 1, 1]" "[3, 7]"]
  by simp

subsection \<open>C10: the description of a model without variables\<close>

text \<open>
  C10. For a model whose degree spec is empty, \<^verbatim>\<open>getDescription()\<close> returns no
  string: the loop that compares neighbours does not run, \<^verbatim>\<open>equal\<close> stays true, and
  \<^verbatim>\<open>degrees.at(0)\<close> raises \<^verbatim>\<open>std::out_of_range\<close>.
\<close>

theorem empty_degrees_description:
  assumes "degrees p = []"
  shows "getDescription p = Inl StdOutOfRange"
proof -
  have "equal_loop [] 1 True = Inr True"
    by (subst equal_loop.simps) simp
  moreover have "vector_at ([] :: uint list) 0 = Inl StdOutOfRange"
    by (simp add: vector_at_def)
  ultimately show ?thesis
    using assms by (simp add: getDescription_def)
qed

theorem empty_degrees_description_witness:
  "degrees (Polynomial_degrees []) = [] \<and>
   numVariables (Polynomial_degrees []) = 0 \<and>
   getDescription (Polynomial_degrees []) = Inl StdOutOfRange"
proof -
  have d: "degrees (Polynomial_degrees []) = []"
    by (simp add: Polynomial_degrees_def)
  show ?thesis
    using empty_degrees_description [OF d] by (simp add: Polynomial_degrees_def)
qed

end
